theory Spec2Isabelle
  imports Complex_Main
begin

section \<open>The web client of the photo downloader (static/js/app.js)\<close>

text \<open>
  The client is one script of event handlers over four globals (\<open>userNsid\<close>,
  \<open>userAlbums\<close>, \<open>currentJobId\<close>, \<open>eventSource\<close>) and the page. The page's
  input fields are read, never written, by the script: their contents at the moment a
  handler runs are an argument of the handler (the record \<open>form\<close>). Everything the
  script writes (globals, element properties, alerts, network requests, the
  \<open>EventSource\<close> objects it creates) is a field of the record \<open>client\<close>, passed
  through every handler. An \<open>async\<close> function is split at its \<open>await\<close>: the part
  run by the call, and the part run when the awaited reply arrives.

  Strings are byte lists; the characters the script itself writes are ASCII, except one
  dash, written as its UTF-8 bytes.
\<close>

subsection \<open>Values of the language\<close>

text \<open>Truthiness of a string-or-null value: \<open>null\<close>, \<open>undefined\<close> and \<open>''\<close> are falsy.\<close>

definition truthy :: "string option \<Rightarrow> bool" where
  "truthy v = (case v of None \<Rightarrow> False | Some x \<Rightarrow> x \<noteq> [])"

text \<open>String concatenation with a value that may be \<open>undefined\<close>.\<close>

definition to_str :: "string option \<Rightarrow> string" where
  "to_str v = (case v of None \<Rightarrow> ''undefined'' | Some x \<Rightarrow> x)"

text \<open>White space as \<open>trim\<close> and \<open>parseInt\<close> skip it (the ASCII part of it).\<close>

definition is_space :: "char \<Rightarrow> bool" where
  "is_space c = (c \<in> set [CHR 0x09, CHR 0x0A, CHR 0x0B, CHR 0x0C, CHR 0x0D, CHR '' ''])"

definition trim :: "string \<Rightarrow> string" where
  "trim x = rev (dropWhile is_space (rev (dropWhile is_space x)))"

text \<open>Decimal rendering of a non-negative integer (\<open>String(n)\<close>, below \<open>10^21\<close>).\<close>

fun show_nat :: "nat \<Rightarrow> string" where
  "show_nat n =
     (if n < 10 then [''0123456789'' ! n]
      else show_nat (n div 10) @ [''0123456789'' ! (n mod 10)])"

declare show_nat.simps [simp del]

text \<open>
  \<open>parseInt(x)\<close> with no radix: leading white space is skipped, then an optional sign,
  then an optional \<open>0x\<close>/\<open>0X\<close> (radix 16, else 10), then the longest run of digits of
  the radix; the rest of the string is ignored. No digit: \<open>NaN\<close>, here \<open>None\<close>. The
  value is kept as an exact integer (the script uses it as a count and as an index; a
  double is exact up to \<open>2^53\<close>).
\<close>

definition digit_value :: "char \<Rightarrow> nat option" where
  "digit_value c = (let k = (of_char c :: nat) in
     if 48 \<le> k \<and> k \<le> 57 then Some (k - 48)
     else if 97 \<le> k \<and> k \<le> 102 then Some (k - 87)
     else if 65 \<le> k \<and> k \<le> 70 then Some (k - 55)
     else None)"

definition is_digit :: "nat \<Rightarrow> char \<Rightarrow> bool" where
  "is_digit radix c = (case digit_value c of None \<Rightarrow> False | Some d \<Rightarrow> d < radix)"

definition digits_value :: "nat \<Rightarrow> string \<Rightarrow> nat" where
  "digits_value radix z = foldl (\<lambda>a c. a * radix + the (digit_value c)) 0 z"

definition strip_sign :: "string \<Rightarrow> bool \<times> string" where
  "strip_sign x = (case x of
       [] \<Rightarrow> (False, x)
     | c # r \<Rightarrow> if c = CHR ''-'' then (True, r) else if c = CHR ''+'' then (False, r) else (False, x))"

definition strip_prefix :: "string \<Rightarrow> nat \<times> string" where
  "strip_prefix x = (case x of
       a # b # r \<Rightarrow> if a = CHR ''0'' \<and> (b = CHR ''x'' \<or> b = CHR ''X'') then (16, r) else (10, x)
     | _ \<Rightarrow> (10, x))"

definition parseInt :: "string \<Rightarrow> int option" where
  "parseInt x =
     (let (neg, y) = strip_sign (dropWhile is_space x);
          (radix, w) = strip_prefix y;
          z = takeWhile (is_digit radix) w
      in if z = [] then None
         else Some (if neg then - int (digits_value radix z) else int (digits_value radix z)))"

text \<open>\<open>parseInt(x) || d\<close>: \<open>NaN\<close> and \<open>0\<close> are falsy.\<close>

definition parseInt_or :: "string \<Rightarrow> int \<Rightarrow> int" where
  "parseInt_or x d = (case parseInt x of None \<Rightarrow> d | Some n \<Rightarrow> if n = 0 then d else n)"

subsection \<open>The page's inputs, the request parameters, the albums\<close>

record album =
  a_id :: string
  a_title :: string
  a_photos :: nat

text \<open>
  The inputs as a handler reads them: the \<open>value\<close> of each text field and select, the
  \<open>checked\<close> box, the value of the checked radio of each group, and the \<open>data-tab\<close>
  of the tab button of class \<open>active\<close> (\<open>None\<close>: no button is active). Every element
  the script looks up exists, and each radio group has a checked member, as the script
  takes for granted when it reads \<open>.value\<close>.
\<close>

record form =
  in_user_input :: string
  in_search_text :: string
  in_search_tags :: string
  in_tag_mode :: string
  in_sort :: string
  in_license :: string
  in_search_count :: string
  in_int_date :: string
  in_int_count :: string
  in_user_mode :: string
  in_user_count :: string
  in_album_select :: string
  in_photo_size :: string
  in_embed_metadata :: bool
  in_filename_tmpl :: string
  in_active_tab :: "string option"

text \<open>The object \<open>gatherParams\<close> builds: a key that is not set is \<open>None\<close>.\<close>

record params =
  p_size_key :: string
  p_embed_metadata :: bool
  p_filename_template :: string
  p_tab_type :: "string option"
  p_date :: "string option"
  p_count :: "int option"
  p_user_id :: "string option"
  p_text :: "string option"
  p_tags :: "string option"
  p_tag_mode :: "string option"
  p_sort :: "string option"
  p_license_ids :: "string option"
  p_user_nsid :: "string option"
  p_album_id :: "string option"
  p_album_title :: "string option"

text \<open>The body of the search request of \<open>startPreview\<close>.\<close>

record search_query =
  q_text :: string
  q_tags :: string
  q_tag_mode :: string
  q_sort :: string
  q_license_ids :: string
  q_count :: int
  q_user_id :: string

datatype body = ResolveUserBody string | SearchBody search_query | ParamsBody params | NoBody

datatype request = POST string body | OpenEventSource string

subsection \<open>Double-precision arithmetic of the progress percentage\<close>

text \<open>
  The script computes \<open>Math.round((ev.current / ev.total) * 100)\<close> on numbers, which are
  IEEE 754 doubles: the quotient is rounded to the nearest double (ties to even), so is
  the product, and \<open>Math.round\<close> then takes the nearest integer, ties upwards.
  A finite non-negative double is kept as the rational it denotes. \<open>fl x\<close> is the double
  nearest to a positive rational \<open>x\<close> in the normal range: 53 significant bits.
  The fields \<open>current\<close> and \<open>total\<close> are natural numbers (below \<open>2^53\<close>, as JSON
  numbers are read exactly); a division by zero gives \<open>Infinity\<close>, or \<open>NaN\<close> for \<open>0/0\<close>.
\<close>

fun bitlen :: "nat \<Rightarrow> nat" where
  "bitlen n = (if n = 0 then 0 else Suc (bitlen (n div 2)))"

declare bitlen.simps [simp del]

definition pow2 :: "int \<Rightarrow> rat" where
  "pow2 e = (if 0 \<le> e then 2 ^ nat e else 1 / 2 ^ nat (- e))"

text \<open>The binary exponent of a positive rational: \<open>pow2 (ilog2 x) \<le> x < pow2 (ilog2 x + 1)\<close>.\<close>

definition ilog2 :: "rat \<Rightarrow> int" where
  "ilog2 x = (if 1 \<le> x then int (bitlen (nat \<lfloor>x\<rfloor>)) - 1
              else - int (bitlen (nat (\<lceil>1 / x\<rceil> - 1))))"

definition round_even :: "rat \<Rightarrow> int" where
  "round_even y = (let f = \<lfloor>y\<rfloor>; r = y - of_int f in
     if r < 1 / 2 then f else if 1 / 2 < r then f + 1 else if even f then f else f + 1)"

definition fl :: "rat \<Rightarrow> rat" where
  "fl x = (if x \<le> 0 then 0
           else let e = ilog2 x - 52 in of_int (round_even (x / pow2 e)) * pow2 e)"

datatype jsnum = Num rat | Infinity | NaN

definition js_div :: "nat \<Rightarrow> nat \<Rightarrow> jsnum" where
  "js_div c t =
     (if t = 0 then (if c = 0 then NaN else Infinity) else Num (fl (of_nat c / of_nat t)))"

definition js_times :: "jsnum \<Rightarrow> nat \<Rightarrow> jsnum" where
  "js_times v k = (case v of Num x \<Rightarrow> Num (fl (x * of_nat k)) | Infinity \<Rightarrow> Infinity | NaN \<Rightarrow> NaN)"

definition Math_round :: "jsnum \<Rightarrow> jsnum" where
  "Math_round v = (case v of Num x \<Rightarrow> Num (of_int \<lfloor>x + 1 / 2\<rfloor>) | Infinity \<Rightarrow> Infinity | NaN \<Rightarrow> NaN)"

text \<open>\<open>String(v)\<close> of a non-negative integer-valued number, of \<open>Infinity\<close> and of \<open>NaN\<close>.\<close>

definition num_to_string :: "jsnum \<Rightarrow> string" where
  "num_to_string v = (case v of Num x \<Rightarrow> show_nat (nat \<lfloor>x\<rfloor>) | Infinity \<Rightarrow> ''Infinity'' | NaN \<Rightarrow> ''NaN'')"

definition pct :: "nat \<Rightarrow> nat \<Rightarrow> jsnum" where
  "pct cur tot = Math_round (js_times (js_div cur tot) 100)"

text \<open>A bound on the error of the double product \<open>(current / total) * 100\<close>, for
  \<open>current \<le> total\<close>.\<close>

definition delta :: rat where
  "delta = 1 / 2 ^ 45"

subsection \<open>Events of the progress stream, replies of the server\<close>

text \<open>
  The parsed \<open>data\<close> of one message of the stream, by its \<open>type\<close>. \<open>Other t\<close> is an
  object whose type is none of the six the handler knows; \<open>Malformed\<close> is data that
  \<open>JSON.parse\<close> rejects. A \<open>message\<close> field may be missing (\<open>None\<close>).
\<close>

datatype event =
    Progress nat nat
  | Log "string option"
  | Zipping
  | Complete "string option" bool string
  | Error "string option"
  | Cancelled
  | Other string
  | Malformed

fun terminal :: "event \<Rightarrow> bool" where
  "terminal (Complete m r j) = True"
| "terminal (Error m) = True"
| "terminal Cancelled = True"
| "terminal ev = False"

text \<open>What an awaited \<open>fetch(...)\<close> and \<open>resp.json()\<close> give: an exception with its
  message, or the parsed reply.\<close>

datatype 'a outcome = Rejected string | Resolved 'a

record start_reply =
  st_error :: "string option"
  st_job_id :: string

record user_reply =
  ur_error :: "string option"
  ur_nsid :: string
  ur_username :: string
  ur_albums :: "album list"

record photo =
  ph_title :: string
  ph_owner :: string
  ph_date_taken :: string
  ph_thumb_url :: string

record search_reply =
  sr_error :: "string option"
  sr_preview :: "photo list"
  sr_total :: nat

subsection \<open>The state the script writes\<close>

text \<open>An \<open>EventSource\<close> object: its URL, and whether it is still open (\<open>close()\<close> not
  called on it). A closed one dispatches no event.\<close>

record es =
  es_url :: string
  es_open :: bool

text \<open>A cell of the preview grid: the cell's tooltip, the image's source and alternative
  text, and the caption.\<close>

record cell =
  cell_title :: string
  img_src :: string
  img_alt :: string
  caption :: string

text \<open>
  The globals; the objects and suspended calls of the run time (\<open>sources\<close> holds every
  \<open>EventSource\<close> created, \<open>eventSource\<close> refers to one by its index; \<open>awaiting_*\<close>
  counts the calls of an \<open>async\<close> function suspended at their \<open>await\<close>;
  \<open>uncaught\<close> counts the exceptions no handler caught); the effects (\<open>requests\<close>,
  \<open>alerts\<close>); and the properties of the page's elements that the script assigns
  (\<open>progress_bar_width\<close> is the string last assigned to \<open>style.width\<close>).
\<close>

record client =
  userNsid :: "string option"
  userAlbums :: "album list"
  currentJobId :: "string option"
  eventSource :: "nat option"
  sources :: "es list"
  awaiting_start :: nat
  awaiting_cancel :: nat
  awaiting_lookup :: nat
  awaiting_preview :: nat
  uncaught :: nat
  requests :: "request list"
  alerts :: "string list"
  download_btn_disabled :: bool
  cancel_btn_disabled :: bool
  progress_bar_width :: string
  progress_status :: string
  log_output :: string
  download_link_wrap :: string
  preview_btn_disabled :: bool
  preview_status :: string
  preview_grid :: "cell list"
  user_status :: string
  lookup_btn_disabled :: bool
  album_select_options :: "(string \<times> string) list"
  album_select_disabled :: bool
  user_count_disabled :: bool

subsection \<open>Lookup of a user (lookupUser, onUserModeChange)\<close>

definition user_hint :: string where
  "user_hint = ''(optional '' @ [CHR 0xE2, CHR 0x80, CHR 0x93] @ '' filter by user)''"

definition album_option :: "nat \<times> album \<Rightarrow> string \<times> string" where
  "album_option ia = (case ia of (i, a) \<Rightarrow>
     (show_nat i, a_title a @ '' ('' @ show_nat (a_photos a) @ '' photos)''))"

text \<open>The call of \<open>lookupUser\<close>, up to its \<open>await\<close>.\<close>

definition lookupUser :: "form \<Rightarrow> client \<Rightarrow> client" where
  "lookupUser f s =
     (let input = trim (in_user_input f) in
      if input = [] then
        s\<lparr>userNsid := None, userAlbums := [], album_select_options := [],
          album_select_disabled := True, user_status := user_hint\<rparr>
      else
        s\<lparr>lookup_btn_disabled := True, user_status := ''Looking up user...'',
          requests := requests s @ [POST ''/api/resolve-user'' (ResolveUserBody input)],
          awaiting_lookup := Suc (awaiting_lookup s)\<rparr>)"

text \<open>The rest of \<open>lookupUser\<close>, run when the reply is there; \<open>finally\<close> enables the
  button again on every path.\<close>

definition lookupUser_resumed :: "user_reply outcome \<Rightarrow> client \<Rightarrow> client" where
  "lookupUser_resumed r s =
     (case r of
        Rejected msg \<Rightarrow> s\<lparr>user_status := ''Error: '' @ msg, lookup_btn_disabled := False\<rparr>
      | Resolved data \<Rightarrow>
          if truthy (ur_error data) then
            s\<lparr>user_status := ''Error: '' @ to_str (ur_error data), lookup_btn_disabled := False\<rparr>
          else
            s\<lparr>userNsid := Some (ur_nsid data), userAlbums := ur_albums data,
              user_status := ''User: '' @ ur_username data @ '' ('' @ ur_nsid data @ '')'',
              album_select_options := map album_option (enumerate 0 (ur_albums data)),
              lookup_btn_disabled := False\<rparr>)"

definition onUserModeChange :: "form \<Rightarrow> client \<Rightarrow> client" where
  "onUserModeChange f s =
     s\<lparr>album_select_disabled := (in_user_mode f \<noteq> ''album''),
       user_count_disabled := (in_user_mode f = ''album'')\<rparr>"

subsection \<open>Preview of a search (startPreview)\<close>

definition unreserved :: "char \<Rightarrow> bool" where
  "unreserved c = (c \<in> set (''ABCDEFGHIJKLMNOPQRSTUVWXYZabcdefghijklmnopqrstuvwxyz0123456789''
     @ ''-_.!~*()'' @ [CHR 0x27]))"

definition percent :: "char \<Rightarrow> string" where
  "percent c = (let k = (of_char c :: nat) in
     [CHR ''%'', ''0123456789ABCDEF'' ! (k div 16), ''0123456789ABCDEF'' ! (k mod 16)])"

definition encodeURIComponent :: "string \<Rightarrow> string" where
  "encodeURIComponent x = concat (map (\<lambda>c. if unreserved c then [c] else percent c) x)"

definition thumb_cell :: "photo \<Rightarrow> cell" where
  "thumb_cell ph =
     \<lparr>cell_title = ph_title ph @ ''\<newline>By: '' @ ph_owner ph
        @ (if ph_date_taken ph \<noteq> [] then ''\<newline>Date: '' @ ph_date_taken ph else []),
      img_src = ''/api/preview-thumb?url='' @ encodeURIComponent (ph_thumb_url ph),
      img_alt = ph_title ph,
      caption = (if 15 < length (ph_title ph) then take 12 (ph_title ph) @ ''...''
                 else ph_title ph)\<rparr>"

text \<open>The call of \<open>startPreview\<close>, up to its \<open>await\<close>.\<close>

definition startPreview :: "form \<Rightarrow> client \<Rightarrow> client" where
  "startPreview f s =
     (let text = trim (in_search_text f); tags = trim (in_search_tags f) in
      if text = [] \<and> tags = [] then
        s\<lparr>alerts := alerts s @ [''Enter keywords and/or tags to search.'']\<rparr>
      else
        s\<lparr>preview_btn_disabled := True, preview_status := ''Searching...'',
          preview_grid := [],
          requests := requests s @ [POST ''/api/search'' (SearchBody
            \<lparr>q_text = text, q_tags = tags, q_tag_mode = in_tag_mode f, q_sort = in_sort f,
             q_license_ids = in_license f, q_count = parseInt_or (in_search_count f) 100,
             q_user_id = (if truthy (userNsid s) then to_str (userNsid s) else [])\<rparr>)],
          awaiting_preview := Suc (awaiting_preview s)\<rparr>)"

text \<open>The rest of \<open>startPreview\<close>. \<open>loc\<close> is \<open>toLocaleString\<close> of the browser's locale.\<close>

definition startPreview_resumed :: "(nat \<Rightarrow> string) \<Rightarrow> search_reply outcome \<Rightarrow> client \<Rightarrow> client" where
  "startPreview_resumed loc r s =
     (case r of
        Rejected msg \<Rightarrow> s\<lparr>preview_status := ''Error: '' @ msg, preview_btn_disabled := False\<rparr>
      | Resolved data \<Rightarrow>
          if truthy (sr_error data) then
            s\<lparr>preview_status := ''Error: '' @ to_str (sr_error data), preview_btn_disabled := False\<rparr>
          else if sr_preview data = [] then
            s\<lparr>preview_status := ''No photos found.'', preview_btn_disabled := False\<rparr>
          else
            s\<lparr>preview_grid := preview_grid s
                @ map thumb_cell (filter (\<lambda>ph. ph_thumb_url ph \<noteq> []) (sr_preview data)),
              preview_status := loc (sr_total data) @ '' total photos found  |  Previewing ''
                @ show_nat (length (sr_preview data)),
              preview_btn_disabled := False\<rparr>)"

subsection \<open>The request parameters (getActiveTab, gatherParams)\<close>

definition getActiveTab :: "form \<Rightarrow> string" where
  "getActiveTab f = (case in_active_tab f of Some t \<Rightarrow> t | None \<Rightarrow> ''interestingness'')"

definition base_params :: "form \<Rightarrow> params" where
  "base_params f =
     \<lparr>p_size_key = in_photo_size f, p_embed_metadata = in_embed_metadata f,
      p_filename_template = (if in_filename_tmpl f \<noteq> [] then in_filename_tmpl f else ''{title}_{id}''),
      p_tab_type = None, p_date = None, p_count = None, p_user_id = None, p_text = None,
      p_tags = None, p_tag_mode = None, p_sort = None, p_license_ids = None,
      p_user_nsid = None, p_album_id = None, p_album_title = None\<rparr>"

text \<open>\<open>if (userNsid) params.user_id = userNsid\<close>\<close>

definition with_user_id :: "client \<Rightarrow> params \<Rightarrow> params" where
  "with_user_id s ps = (if truthy (userNsid s) then ps\<lparr>p_user_id := userNsid s\<rparr> else ps)"

text \<open>\<open>Inl msg\<close>: \<open>alert(msg)\<close>, then \<open>null\<close> is returned. \<open>Inr ps\<close>: the parameters.\<close>

definition gatherParams :: "form \<Rightarrow> client \<Rightarrow> string + params" where
  "gatherParams f s =
     (let tab = getActiveTab f; ps = base_params f in
      if tab = ''interestingness'' then
        Inr (with_user_id s (ps\<lparr>p_tab_type := Some ''interestingness'',
               p_date := Some (trim (in_int_date f)),
               p_count := Some (parseInt_or (in_int_count f) 500)\<rparr>))
      else if tab = ''search'' then
        Inr (with_user_id s (ps\<lparr>p_tab_type := Some ''search'',
               p_text := Some (trim (in_search_text f)),
               p_tags := Some (trim (in_search_tags f)),
               p_tag_mode := Some (in_tag_mode f),
               p_sort := Some (in_sort f),
               p_license_ids := Some (in_license f),
               p_count := Some (parseInt_or (in_search_count f) 100)\<rparr>))
      else if tab = ''user-album'' then
        (if \<not> truthy (userNsid s) then Inl ''Look up a user first.''
         else if in_user_mode f = ''photostream'' then
           Inr (ps\<lparr>p_user_nsid := userNsid s, p_tab_type := Some ''user_photostream'',
                  p_count := Some (parseInt_or (in_user_count f) 500)\<rparr>)
         else
           (case parseInt (in_album_select f) of
              None \<Rightarrow> Inl ''Select an album first.''
            | Some idx \<Rightarrow>
                if idx < 0 \<or> int (length (userAlbums s)) \<le> idx then Inl ''Select an album first.''
                else Inr (ps\<lparr>p_user_nsid := userNsid s, p_tab_type := Some ''album'',
                            p_album_id := Some (a_id (userAlbums s ! nat idx)),
                            p_album_title := Some (a_title (userAlbums s ! nat idx))\<rparr>)))
      else Inr ps)"

subsection \<open>The download (setRunning, appendLog, startDownload, cancelDownload)\<close>

definition setRunning :: "bool \<Rightarrow> client \<Rightarrow> client" where
  "setRunning running s = s\<lparr>download_btn_disabled := running, cancel_btn_disabled := (\<not> running)\<rparr>"

definition appendLog :: "string \<Rightarrow> client \<Rightarrow> client" where
  "appendLog msg s = s\<lparr>log_output := log_output s @ msg @ ''\<newline>''\<rparr>"

definition download_link :: "string \<Rightarrow> string" where
  \<open>download_link job_id =
     ''<a class="download-link" href="/api/download/file/'' @ job_id @ ''">Download Zip</a>''\<close>

text \<open>
  \<open>eventSource.close(); eventSource = null;\<close> The object closed is the one the global
  refers to. On \<open>null\<close> the call throws a TypeError that nothing catches, and the
  handler ends there.
\<close>

definition close_eventSource :: "client \<Rightarrow> client" where
  "close_eventSource s =
     (case eventSource s of
        None \<Rightarrow> s\<lparr>uncaught := Suc (uncaught s)\<rparr>
      | Some i \<Rightarrow> s\<lparr>sources := (sources s)[i := (sources s ! i)\<lparr>es_open := False\<rparr>],
                   eventSource := None\<rparr>)"

text \<open>The handler \<open>eventSource.onmessage\<close> on the parsed data of a message.\<close>

definition onmessage :: "event \<Rightarrow> client \<Rightarrow> client" where
  "onmessage ev s =
     (case ev of
        Progress cur tot \<Rightarrow>
          s\<lparr>progress_bar_width := num_to_string (pct cur tot) @ ''%'',
            progress_status := show_nat cur @ ''/'' @ show_nat tot @ '' photos''\<rparr>
      | Log m \<Rightarrow> appendLog (to_str m) s
      | Zipping \<Rightarrow> s\<lparr>progress_status := ''Creating zip file...''\<rparr>
      | Complete m file_ready job_id \<Rightarrow>
          (let s1 = (appendLog (if truthy m then to_str m else ''Done.'') s)\<lparr>progress_status := ''Done''\<rparr>;
               s2 = (if file_ready then s1\<lparr>download_link_wrap := download_link job_id\<rparr> else s1)
           in close_eventSource (setRunning False s2))
      | Error m \<Rightarrow>
          close_eventSource (setRunning False
            ((appendLog (''Error: '' @ to_str m) s)\<lparr>progress_status := ''Failed''\<rparr>))
      | Cancelled \<Rightarrow>
          close_eventSource (setRunning False
            ((appendLog ''Operation cancelled.'' s)\<lparr>progress_status := ''Cancelled''\<rparr>))
      | Other t \<Rightarrow> s
      | Malformed \<Rightarrow> s\<lparr>uncaught := Suc (uncaught s)\<rparr>)"

text \<open>The handler \<open>eventSource.onerror\<close>.\<close>

definition onerror :: "client \<Rightarrow> client" where
  "onerror s = close_eventSource (setRunning False (appendLog ''Connection lost.'' s))"

text \<open>The call of \<open>startDownload\<close>, up to its first \<open>await\<close>.\<close>

definition startDownload :: "form \<Rightarrow> client \<Rightarrow> client" where
  "startDownload f s =
     (case gatherParams f s of
        Inl msg \<Rightarrow> s\<lparr>alerts := alerts s @ [msg]\<rparr>
      | Inr ps \<Rightarrow>
          (setRunning True
             (s\<lparr>log_output := [], progress_bar_width := ''0%'',
                progress_status := ''Starting...'', download_link_wrap := []\<rparr>))
          \<lparr>requests := requests s @ [POST ''/api/download/start'' (ParamsBody ps)],
           awaiting_start := Suc (awaiting_start s)\<rparr>)"

text \<open>The rest of \<open>startDownload\<close>: the reply of the server, or the exception caught.\<close>

definition startDownload_resumed :: "start_reply outcome \<Rightarrow> client \<Rightarrow> client" where
  "startDownload_resumed r s =
     (case r of
        Rejected msg \<Rightarrow> setRunning False (appendLog (''Error: '' @ msg) s)
      | Resolved data \<Rightarrow>
          if truthy (st_error data) then
            setRunning False (appendLog (''Error: '' @ to_str (st_error data)) s)
          else
            s\<lparr>currentJobId := Some (st_job_id data),
              sources := sources s
                @ [\<lparr>es_url = ''/api/download/progress/'' @ st_job_id data, es_open = True\<rparr>],
              eventSource := Some (length (sources s)),
              requests := requests s
                @ [OpenEventSource (''/api/download/progress/'' @ st_job_id data)]\<rparr>)"

text \<open>The call of \<open>cancelDownload\<close>, up to its \<open>await\<close>.\<close>

definition cancelDownload :: "client \<Rightarrow> client" where
  "cancelDownload s =
     (if \<not> truthy (currentJobId s) then s
      else s\<lparr>progress_status := ''Cancelling...'',
             requests := requests s
               @ [POST (''/api/download/cancel/'' @ to_str (currentJobId s)) NoBody],
             awaiting_cancel := Suc (awaiting_cancel s)\<rparr>)"

text \<open>The rest of \<open>cancelDownload\<close>: the reply is not read; an exception is logged.\<close>

definition cancelDownload_resumed :: "unit outcome \<Rightarrow> client \<Rightarrow> client" where
  "cancelDownload_resumed r s =
     (case r of Rejected msg \<Rightarrow> appendLog (''Cancel error: '' @ msg) s | Resolved u \<Rightarrow> s)"

subsection \<open>The client as a transition system\<close>

text \<open>
  What can happen to the page, one handler run at a time: a function of the script
  is called, a reply resumes a suspended call if there is one, a stream delivers a
  message or an error while it is open. Nothing in the script keeps a function from
  being called, so every action is possible in every state.
\<close>

datatype action =
    StartDownload form
  | StartReply "start_reply outcome"
  | Message nat event
  | StreamError nat
  | CancelDownload
  | CancelReply "unit outcome"
  | LookupUser form
  | LookupReply "user_reply outcome"
  | StartPreview form
  | PreviewReply "nat \<Rightarrow> string" "search_reply outcome"
  | OnUserModeChange form

definition is_open :: "client \<Rightarrow> nat \<Rightarrow> bool" where
  "is_open s i = (i < length (sources s) \<and> es_open (sources s ! i))"

fun step :: "action \<Rightarrow> client \<Rightarrow> client" where
  "step (StartDownload f) s = startDownload f s"
| "step (StartReply r) s =
     (if awaiting_start s = 0 then s
      else startDownload_resumed r (s\<lparr>awaiting_start := awaiting_start s - 1\<rparr>))"
| "step (Message i ev) s = (if is_open s i then onmessage ev s else s)"
| "step (StreamError i) s = (if is_open s i then onerror s else s)"
| "step CancelDownload s = cancelDownload s"
| "step (CancelReply r) s =
     (if awaiting_cancel s = 0 then s
      else cancelDownload_resumed r (s\<lparr>awaiting_cancel := awaiting_cancel s - 1\<rparr>))"
| "step (LookupUser f) s = lookupUser f s"
| "step (LookupReply r) s =
     (if awaiting_lookup s = 0 then s
      else lookupUser_resumed r (s\<lparr>awaiting_lookup := awaiting_lookup s - 1\<rparr>))"
| "step (StartPreview f) s = startPreview f s"
| "step (PreviewReply loc r) s =
     (if awaiting_preview s = 0 then s
      else startPreview_resumed loc r (s\<lparr>awaiting_preview := awaiting_preview s - 1\<rparr>))"
| "step (OnUserModeChange f) s = onUserModeChange f s"

definition run :: "action list \<Rightarrow> client \<Rightarrow> client" where
  "run acts s = fold step acts s"


text \<open>
  A run in which \<open>startDownload\<close> is called only while the download button is
  enabled. The script disables that button from the call of \<open>startDownload\<close> until
  the job has ended (\<open>setRunning\<close>); in such a run a download is started only when
  none is under way.
\<close>

definition allowed :: "action \<Rightarrow> client \<Rightarrow> bool" where
  "allowed a s = (case a of StartDownload f \<Rightarrow> \<not> download_btn_disabled s | _ \<Rightarrow> True)"

fun guarded :: "client \<Rightarrow> action list \<Rightarrow> bool" where
  "guarded s [] = True"
| "guarded s (a # acts) = (allowed a s \<and> guarded (step a s) acts)"

text \<open>The script as loaded: the globals as its first lines set them, nothing created,
  nothing suspended. The page's elements are as the page has them.\<close>

definition initial :: "client \<Rightarrow> bool" where
  "initial s = (userNsid s = None \<and> userAlbums s = [] \<and> currentJobId s = None
     \<and> eventSource s = None \<and> sources s = [] \<and> awaiting_start s = 0
     \<and> awaiting_cancel s = 0 \<and> awaiting_lookup s = 0 \<and> awaiting_preview s = 0
     \<and> uncaught s = 0 \<and> requests s = [] \<and> alerts s = [])"

text \<open>
  One job at a time: a stream that is open is the one the global refers to; while a
  start is awaited or a stream is open the download button is disabled and no link is
  shown; a start is never awaited while a stream is open.
\<close>

definition busy :: "client \<Rightarrow> bool" where
  "busy s = (0 < awaiting_start s \<or> (\<exists>i < length (sources s). es_open (sources s ! i)))"

definition one_job :: "client \<Rightarrow> bool" where
  "one_job s =
     ((\<forall>i < length (sources s). es_open (sources s ! i) \<longrightarrow> eventSource s = Some i \<and> awaiting_start s = 0)
      \<and> awaiting_start s \<le> 1
      \<and> (busy s \<longrightarrow> download_btn_disabled s \<and> download_link_wrap s = []))"

text \<open>A page to run the script on: empty, the download button enabled.\<close>

definition page0 :: client where
  "page0 =
     \<lparr>userNsid = None, userAlbums = [], currentJobId = None, eventSource = None,
      sources = [], awaiting_start = 0, awaiting_cancel = 0, awaiting_lookup = 0,
      awaiting_preview = 0, uncaught = 0, requests = [], alerts = [],
      download_btn_disabled = False, cancel_btn_disabled = True,
      progress_bar_width = ''0%'', progress_status = [], log_output = [],
      download_link_wrap = [], preview_btn_disabled = False, preview_status = [],
      preview_grid = [], user_status = [], lookup_btn_disabled = False,
      album_select_options = [], album_select_disabled = True,
      user_count_disabled = False\<rparr>"

definition form0 :: form where
  "form0 =
     \<lparr>in_user_input = [], in_search_text = [], in_search_tags = [], in_tag_mode = ''any'',
      in_sort = ''relevance'', in_license = [], in_search_count = ''100'',
      in_int_date = [], in_int_count = ''500'', in_user_mode = ''photostream'',
      in_user_count = ''500'', in_album_select = [], in_photo_size = ''Large'',
      in_embed_metadata = True, in_filename_tmpl = ''{title}_{id}'',
      in_active_tab = None\<rparr>"

text \<open>Exactly one of the two buttons is enabled.\<close>

definition one_enabled :: "client \<Rightarrow> bool" where
  "one_enabled s = (download_btn_disabled s \<noteq> cancel_btn_disabled s)"

subsection \<open>Concrete pages and runs\<close>

text \<open>
  A download from the empty page: the call, the server's reply with the job's
  identifier, one progress message, the message that the job is complete, and two
  messages that the server sends after it.
\<close>

definition job_run :: "action list" where
  "job_run =
     [StartDownload form0,
      StartReply (Resolved \<lparr>st_error = None, st_job_id = ''j1''\<rparr>),
      Message 0 (Progress 1 2),
      Message 0 (Complete (Some ''ok'') True ''j1''),
      Message 0 Cancelled,
      Message 0 (Progress 2 2)]"


text \<open>The page once the stream of job \<open>j1\<close> is open.\<close>

definition subscribed :: client where
  "subscribed = run (take 2 job_run) page0"

text \<open>
  Two downloads at once: \<open>startDownload\<close> is called again while the stream of job
  \<open>j1\<close> is open. Then the first stream delivers that its job is complete, a late
  progress message, and that the job is cancelled.
\<close>

definition overlap_start :: "action list" where
  "overlap_start =
     [StartDownload form0,
      StartReply (Resolved \<lparr>st_error = None, st_job_id = ''j1''\<rparr>),
      StartDownload form0,
      StartReply (Resolved \<lparr>st_error = None, st_job_id = ''j2''\<rparr>),
      Message 0 (Complete None True ''j1'')]"


text \<open>A user with two albums, and the page after the lookup.\<close>

definition user_reply0 :: user_reply where
  "user_reply0 =
     \<lparr>ur_error = None, ur_nsid = ''12345@N00'', ur_username = ''ann'',
      ur_albums = [\<lparr>a_id = ''7215'', a_title = ''Holiday'', a_photos = 12\<rparr>,
                   \<lparr>a_id = ''7216'', a_title = ''Birds'', a_photos = 3\<rparr>]\<rparr>"

definition looked_up :: client where
  "looked_up = run [LookupUser (form0\<lparr>in_user_input := ''ann''\<rparr>), LookupReply (Resolved user_reply0)] page0"

text \<open>Inputs: the second album selected; no album selected; a count of zero, a count
  that is no number, a blank count and an empty filename template.\<close>

definition album_form :: form where
  "album_form = form0\<lparr>in_active_tab := Some ''user-album'', in_user_mode := ''album'',
     in_album_select := ''1'', in_user_count := ''25''\<rparr>"

definition no_album_form :: form where
  "no_album_form = album_form\<lparr>in_album_select := []\<rparr>"

definition zero_form :: form where
  "zero_form = form0\<lparr>in_int_count := ''0'', in_search_count := ''abc'', in_user_count := '' '',
     in_filename_tmpl := []\<rparr>"

text \<open>A search that finds nothing, and the page while the search is awaited.\<close>

definition empty_reply :: search_reply where
  "empty_reply = \<lparr>sr_error = None, sr_preview = [], sr_total = 0\<rparr>"

definition searching :: client where
  "searching = run [StartPreview (form0\<lparr>in_search_text := ''zzzz''\<rparr>)] page0"

section \<open>Properties\<close>

subsection \<open>The rounding of doubles\<close>

text \<open>
  \<open>ilog2\<close> is the binary exponent, so the rounding \<open>fl\<close> keeps 53 significant bits
  and moves a positive number by at most the fraction \<open>2^-53\<close> of it. The product
  \<open>(current / total) * 100\<close> is then within \<open>delta\<close> of the exact percentage, and
  \<open>Math.round\<close> of it is the exact percentage rounded down or up; it is the nearest
  integer unless the exact percentage is halfway between two integers.
\<close>

lemma pow2_powi: "pow2 e = 2 powi e"
  by (simp add: pow2_def power_int_def inverse_eq_divide power_one_over)

lemma pow2_pos: "0 < pow2 e"
  by (simp add: pow2_powi)

lemma pow2_add: "pow2 (a + b) = pow2 a * pow2 b"
  by (simp add: pow2_powi power_int_add)

lemma bitlen_bounds: "0 < n \<Longrightarrow> 2 ^ (bitlen n - 1) \<le> n \<and> n < 2 ^ bitlen n"
proof (induction n rule: bitlen.induct)
  case (1 n)
  show ?case
  proof (cases "n div 2 = 0")
    case True
    with "1.prems" have "n = 1" by (cases n) auto
    then show ?thesis by (simp add: bitlen.simps)
  next
    case False
    then have pos: "0 < n div 2" by simp
    with "1.IH" "1.prems" have ih: "2 ^ (bitlen (n div 2) - 1) \<le> n div 2 \<and> n div 2 < 2 ^ bitlen (n div 2)"
      by simp
    have bl: "bitlen n = Suc (bitlen (n div 2))" using "1.prems" by (subst bitlen.simps) simp
    have blpos: "0 < bitlen (n div 2)" using pos by (subst bitlen.simps) simp
    then obtain k where k: "bitlen (n div 2) = Suc k" by (cases "bitlen (n div 2)") auto
    from ih k have "2 ^ k \<le> n div 2" "n div 2 < 2 ^ Suc k" by simp_all
    then have "2 ^ Suc k \<le> n" "n < 2 ^ Suc (Suc k)" by simp_all
    with bl k show ?thesis by simp
  qed
qed

lemma pow2_nat: "pow2 (int k) = 2 ^ k"
  by (simp add: pow2_powi)

lemma pow2_neg_nat: "pow2 (- int k) = 1 / 2 ^ k"
  by (simp add: pow2_powi power_int_minus inverse_eq_divide)

lemma ilog2_bounds:
  assumes "0 < x"
  shows "pow2 (ilog2 x) \<le> x \<and> x < pow2 (ilog2 x + 1)"
proof (cases "1 \<le> x")
  case True
  define n where "n = nat \<lfloor>x\<rfloor>"
  from True have fl1: "1 \<le> \<lfloor>x\<rfloor>" by simp
  then have npos: "0 < n" and nx: "of_nat n = (of_int \<lfloor>x\<rfloor> :: rat)" by (simp_all add: n_def)
  from bitlen_bounds [OF npos] have lo: "2 ^ (bitlen n - 1) \<le> n" and hi: "n < 2 ^ bitlen n" by simp_all
  have blpos: "0 < bitlen n" using npos by (subst bitlen.simps) simp
  have il: "ilog2 x = int (bitlen n - 1)" using True blpos by (simp add: ilog2_def n_def)
  have il1: "ilog2 x + 1 = int (bitlen n)" using il blpos by simp
  from lo have "(of_nat (2 ^ (bitlen n - 1)) :: rat) \<le> of_nat n" by (rule of_nat_mono)
  then have "(2 :: rat) ^ (bitlen n - 1) \<le> of_int \<lfloor>x\<rfloor>" by (simp add: nx)
  also have "\<dots> \<le> x" by simp
  finally have a: "pow2 (ilog2 x) \<le> x" by (simp add: il pow2_nat)
  from hi have "n + 1 \<le> 2 ^ bitlen n" by simp
  then have "(of_nat (n + 1) :: rat) \<le> of_nat (2 ^ bitlen n)" by (rule of_nat_mono)
  then have "of_int \<lfloor>x\<rfloor> + 1 \<le> (2 :: rat) ^ bitlen n" by (simp add: nx)
  moreover have "x < of_int \<lfloor>x\<rfloor> + 1" by linarith
  ultimately have b: "x < pow2 (ilog2 x + 1)" by (simp add: il1 pow2_nat)
  from a b show ?thesis ..
next
  case False
  define y where "y = 1 / x"
  from False assms have y1: "1 < y" by (simp add: y_def)
  define m where "m = nat (\<lceil>y\<rceil> - 1)"
  from y1 have c2: "2 \<le> \<lceil>y\<rceil>" by linarith
  then have mpos: "0 < m" and my: "(of_nat m :: rat) = of_int \<lceil>y\<rceil> - 1" by (simp_all add: m_def)
  from bitlen_bounds [OF mpos] have lo: "2 ^ (bitlen m - 1) \<le> m" and hi: "m < 2 ^ bitlen m" by simp_all
  have blpos: "0 < bitlen m" using mpos by (subst bitlen.simps) simp
  have il: "ilog2 x = - int (bitlen m)" using False by (simp add: ilog2_def m_def y_def)
  have il1: "ilog2 x + 1 = - int (bitlen m - 1)" using il blpos by simp
  from hi have "m + 1 \<le> 2 ^ bitlen m" by simp
  then have "(of_nat (m + 1) :: rat) \<le> of_nat (2 ^ bitlen m)" by (rule of_nat_mono)
  then have "of_int \<lceil>y\<rceil> \<le> (2 :: rat) ^ bitlen m" by (simp add: my)
  moreover have "y \<le> of_int \<lceil>y\<rceil>" by simp
  ultimately have "y \<le> 2 ^ bitlen m" by linarith
  then have "1 / x \<le> 2 ^ bitlen m" by (simp add: y_def)
  with assms have "1 / 2 ^ bitlen m \<le> x"
    by (simp add: field_simps)
  then have a: "pow2 (ilog2 x) \<le> x" by (simp add: il pow2_neg_nat)
  from lo have "(of_nat (2 ^ (bitlen m - 1)) :: rat) \<le> of_nat m" by (rule of_nat_mono)
  then have "(2 :: rat) ^ (bitlen m - 1) \<le> of_int \<lceil>y\<rceil> - 1" by (simp add: my)
  moreover have "of_int \<lceil>y\<rceil> - 1 < y" by linarith
  ultimately have "2 ^ (bitlen m - 1) < y" by linarith
  then have "2 ^ (bitlen m - 1) < 1 / x" by (simp add: y_def)
  with assms have "x < 1 / 2 ^ (bitlen m - 1)"
    by (simp add: field_simps)
  then have b: "x < pow2 (ilog2 x + 1)" by (simp add: il1 pow2_neg_nat)
  from a b show ?thesis ..
qed

lemma round_even_close: "\<bar>of_int (round_even y) - y\<bar> \<le> 1 / 2"
proof -
  define r where "r = y - of_int \<lfloor>y\<rfloor>"
  have r: "0 \<le> r" "r < 1" unfolding r_def by linarith+
  have y: "y = of_int \<lfloor>y\<rfloor> + r" by (simp add: r_def)
  consider "r < 1 / 2" | "1 / 2 < r" | "r = 1 / 2" by linarith
  then show ?thesis
  proof cases
    case 1
    then have "round_even y = \<lfloor>y\<rfloor>" by (simp add: round_even_def Let_def r_def)
    with 1 r show ?thesis by (simp add: r_def)
  next
    case 2
    then have "round_even y = \<lfloor>y\<rfloor> + 1" by (simp add: round_even_def Let_def r_def)
    then have "of_int (round_even y) - y = 1 - r" by (simp add: r_def)
    with 2 r show ?thesis by simp
  next
    case 3
    then have "round_even y = \<lfloor>y\<rfloor> \<or> round_even y = \<lfloor>y\<rfloor> + 1"
      by (simp add: round_even_def Let_def r_def)
    then have "of_int (round_even y) - y = - r \<or> of_int (round_even y) - y = 1 - r"
      by (auto simp: r_def)
    with 3 show ?thesis by auto
  qed
qed

lemma fl_close:
  assumes "0 < x"
  shows "\<bar>fl x - x\<bar> \<le> x / 2 ^ 53"
proof -
  define e where "e = ilog2 x - 52"
  have pe: "0 < pow2 e" by (rule pow2_pos)
  have flx: "fl x = of_int (round_even (x / pow2 e)) * pow2 e"
    using assms by (simp add: fl_def e_def Let_def)
  have "fl x - x = (of_int (round_even (x / pow2 e)) - x / pow2 e) * pow2 e"
    using pe by (simp add: flx field_simps)
  then have "\<bar>fl x - x\<bar> = \<bar>of_int (round_even (x / pow2 e)) - x / pow2 e\<bar> * pow2 e"
    using pe by (simp add: abs_mult)
  also have "\<dots> \<le> (1 / 2) * pow2 e"
    using round_even_close [of "x / pow2 e"] pe by (intro mult_right_mono) simp_all
  finally have h: "\<bar>fl x - x\<bar> \<le> pow2 e / 2" by simp
  have "pow2 (ilog2 x) = pow2 (e + 52)" by (simp add: e_def)
  also have "\<dots> = pow2 e * pow2 52" by (rule pow2_add)
  also have "pow2 52 = 2 ^ 52" using pow2_nat [of 52] by simp
  finally have "pow2 e * 2 ^ 52 \<le> x" using ilog2_bounds [OF assms] by simp
  then have "pow2 e / 2 \<le> x / 2 ^ 53" by simp
  with h show ?thesis by linarith
qed

lemma fl_pos: "0 < x \<Longrightarrow> 0 < fl x"
proof -
  assume x: "0 < x"
  from fl_close [OF x] have "x - x / 2 ^ 53 \<le> fl x" by linarith
  moreover have "0 < x - x / 2 ^ 53" using x by (simp add: field_simps)
  ultimately show ?thesis by linarith
qed

lemma pct_value:
  "0 < t \<Longrightarrow> pct c t = Num (of_int \<lfloor>fl (fl (of_nat c / of_nat t) * 100) + 1 / 2\<rfloor>)"
  by (simp add: pct_def js_div_def js_times_def Math_round_def)

lemma delta_bounds: "0 < delta" "delta \<le> 1 / 2"
  by (simp_all add: delta_def)

lemma product_close:
  assumes "0 < c" "c \<le> t"
  shows "\<bar>fl (fl (of_nat c / of_nat t) * 100) - 100 * of_nat c / of_nat t\<bar> < delta"
proof -
  define x :: rat where "x = of_nat c / of_nat t"
  define q where "q = fl x"
  define p where "p = fl (q * 100)"
  define u :: rat where "u = 1 / 2 ^ 53"
  have u: "0 < u" "101 * u + 100 * u < delta" "u \<le> 1 / 100" by (simp_all add: u_def delta_def)
  from assms have x: "0 < x" "x \<le> 1" by (simp_all add: x_def)
  from fl_close [OF x(1)] have dq: "\<bar>q - x\<bar> \<le> x * u" by (simp add: q_def u_def)
  have "x * u \<le> 1 * u" using x(2) u(1) by (intro mult_right_mono) simp_all
  with dq have dq1: "\<bar>q - x\<bar> \<le> u" by simp
  from fl_pos [OF x(1)] have q: "0 < q" by (simp add: q_def)
  from dq1 x u(3) have q2: "q * 100 \<le> 101" by linarith
  from q have "0 < q * 100" by simp
  from fl_close [OF this] have dp0: "\<bar>p - q * 100\<bar> \<le> (q * 100) * u" by (simp add: p_def u_def)
  have "(q * 100) * u \<le> 101 * u" using q2 u(1) by (intro mult_right_mono) simp_all
  with dp0 have dp: "\<bar>p - q * 100\<bar> \<le> 101 * u" by linarith
  from dp have dp': "p - q * 100 \<le> 101 * u" "q * 100 - p \<le> 101 * u" by linarith+
  from dq1 have dq': "q - x \<le> u" "x - q \<le> u" by linarith+
  from dp' dq' have "p - 100 * x \<le> 101 * u + 100 * u" "100 * x - p \<le> 101 * u + 100 * u"
    by linarith+
  then have "\<bar>p - 100 * x\<bar> \<le> 101 * u + 100 * u" by linarith
  with u(2) have "\<bar>p - 100 * x\<bar> < delta" by linarith
  then show ?thesis by (simp add: p_def q_def x_def)
qed

lemma pct_zero: "0 < t \<Longrightarrow> pct 0 t = Num 0"
proof -
  assume t: "0 < t"
  have "\<lfloor>(1 :: rat) / 2\<rfloor> = 0" by (intro floor_unique) simp_all
  with t show ?thesis by (simp add: pct_value fl_def)
qed

lemma pct_between:
  assumes "0 < t" "c \<le> t"
  shows "\<exists>k. pct c t = Num (of_int k) \<and> \<lfloor>100 * of_nat c / of_nat t :: rat\<rfloor> \<le> k
           \<and> k \<le> \<lceil>100 * of_nat c / of_nat t :: rat\<rceil>"
proof (cases "c = 0")
  case True
  with assms pct_zero [of t] show ?thesis by simp
next
  case False
  define z :: rat where "z = 100 * of_nat c / of_nat t"
  define p where "p = fl (fl (of_nat c / of_nat t) * 100)"
  from False assms product_close [of c t] have d: "\<bar>p - z\<bar> < delta"
    by (simp add: p_def z_def)
  have "of_int \<lfloor>z\<rfloor> \<le> z" "z \<le> of_int \<lceil>z\<rceil>" by simp_all
  with d delta_bounds have lo: "of_int \<lfloor>z\<rfloor> \<le> p + 1 / 2" and hi: "p + 1 / 2 < of_int \<lceil>z\<rceil> + 1"
    by linarith+
  from lo have a: "\<lfloor>z\<rfloor> \<le> \<lfloor>p + 1 / 2\<rfloor>" by (simp only: le_floor_iff)
  from hi have "p + 1 / 2 < of_int (\<lceil>z\<rceil> + 1)" by simp
  then have "\<lfloor>p + 1 / 2\<rfloor> < \<lceil>z\<rceil> + 1" by (simp only: floor_less_iff)
  with a have "\<lfloor>z\<rfloor> \<le> \<lfloor>p + 1 / 2\<rfloor>" "\<lfloor>p + 1 / 2\<rfloor> \<le> \<lceil>z\<rceil>" by simp_all
  with assms show ?thesis by (simp add: pct_value p_def z_def)
qed

lemma pct_nearest:
  assumes "0 < t" "c \<le> t" "t \<le> 2 ^ 44" "(200 * c + t) mod (2 * t) \<noteq> 0"
  shows "pct c t = Num (of_int (round (100 * of_nat c / of_nat t :: rat)))"
proof (cases "c = 0")
  case True
  with assms(1) pct_zero [of t] show ?thesis by simp
next
  case False
  then have cpos: "0 < c" by simp
  define z :: rat where "z = 100 * of_nat c / of_nat t"
  define p where "p = fl (fl (of_nat c / of_nat t) * 100)"
  define d where "d = (200 * c + t) div (2 * t)"
  define m where "m = (200 * c + t) mod (2 * t)"
  define w :: rat where "w = 1 / (2 * of_nat t)"
  define f :: rat where "f = of_nat m * w"
  from cpos assms product_close [of c t] have dp: "\<bar>p - z\<bar> < delta"
    by (simp add: p_def z_def)
  have m: "1 \<le> m" "m + 1 \<le> 2 * t" using assms by (simp_all add: m_def Suc_leI)
  have "d * (2 * t) + m = 200 * c + t" unfolding d_def m_def by (rule div_mult_mod_eq)
  then have "200 * c + t = d * (2 * t) + m" by simp
  then have "(of_nat (200 * c + t) :: rat) = of_nat (d * (2 * t) + m)" by simp
  then have zz: "z + 1 / 2 = of_int (int d) + f"
    using assms(1) by (simp add: z_def f_def w_def field_simps)
  have tpos: "(0 :: rat) < 2 * of_nat t" using assms(1) by simp
  have wpos: "0 < w" using tpos by (simp add: w_def)
  have "(of_nat t :: rat) \<le> of_nat (2 ^ 44)" using assms(3) by (rule of_nat_mono)
  then have "(2 * of_nat t :: rat) \<le> 2 ^ 45" by simp
  then have inv: "delta \<le> w"
    unfolding delta_def w_def using tpos by (intro divide_left_mono) simp_all
  from m(1) have "(1 :: rat) \<le> of_nat m" by simp
  then have "1 * w \<le> of_nat m * w" using wpos by (intro mult_right_mono) simp_all
  then have lo: "w \<le> f" by (simp add: f_def)
  from m(2) have "(of_nat (m + 1) :: rat) \<le> of_nat (2 * t)" by (rule of_nat_mono)
  then have "(of_nat m :: rat) \<le> 2 * of_nat t - 1" by simp
  then have "of_nat m * w \<le> (2 * of_nat t - 1) * w" using wpos by (intro mult_right_mono) simp_all
  also have "\<dots> = 1 - w" using tpos by (simp add: w_def field_simps)
  finally have hi: "f \<le> 1 - w" by (simp add: f_def)
  have z1: "of_int (int d) \<le> z + 1 / 2" "z + 1 / 2 < of_int (int d) + 1"
    using zz lo hi wpos by linarith+
  then have rz: "\<lfloor>z + 1 / 2\<rfloor> = int d" by (intro floor_unique)
  have p1: "of_int (int d) \<le> p + 1 / 2"
    using dp zz lo inv by linarith
  have p2: "p + 1 / 2 < of_int (int d) + 1"
    using dp zz hi inv by linarith
  from p1 p2 have rp: "\<lfloor>p + 1 / 2\<rfloor> = int d" by (intro floor_unique)
  from assms(1) rz rp show ?thesis
    by (simp add: pct_value round_def p_def z_def)
qed

subsection \<open>The arithmetic on known values\<close>

text \<open>The double nearest to one tenth, and two numbers that are doubles themselves.\<close>

lemma fl_tenth: "fl (1 / 10) = 3602879701896397 / 36028797018963968"
  by code_simp

lemma fl_1: "fl 1 = 1" by code_simp

lemma fl_100: "fl 100 = 100" by code_simp

lemma Math_round_100: "Math_round (Num 100) = Num 100" by code_simp

lemma Math_round_0: "Math_round (Num 0) = Num 0" by code_simp

lemma pct_full: "0 < c \<Longrightarrow> pct c c = Num 100"
proof -
  assume "0 < c"
  then have "js_div c c = Num 1" by (simp add: js_div_def fl_1)
  then have "js_times (js_div c c) 100 = Num 100" by (simp add: js_times_def fl_100)
  then show ?thesis by (simp add: pct_def Math_round_100)
qed

subsection \<open>One job at a time\<close>

text \<open>The script as loaded has no job, and no handler run breaks \<open>one_job\<close>, as long
  as \<open>startDownload\<close> is called only while the download button is enabled.\<close>

lemma initial_one_job: "initial s \<Longrightarrow> one_job s"
  by (simp add: initial_def one_job_def busy_def)

lemma close_eventSource_fields [simp]:
  "awaiting_start (close_eventSource s) = awaiting_start s"
  "download_btn_disabled (close_eventSource s) = download_btn_disabled s"
  "cancel_btn_disabled (close_eventSource s) = cancel_btn_disabled s"
  "download_link_wrap (close_eventSource s) = download_link_wrap s"
  "progress_status (close_eventSource s) = progress_status s"
  "requests (close_eventSource s) = requests s"
  "log_output (close_eventSource s) = log_output s"
  "length (sources (close_eventSource s)) = length (sources s)"
  by (simp_all add: close_eventSource_def split: option.splits)

lemma one_job_onmessage:
  assumes "one_job s" "is_open s i"
  shows "one_job (onmessage ev s)"
proof -
  from assms have es: "eventSource s = Some i" and i: "i < length (sources s)" and a0: "awaiting_start s = 0"
    by (auto simp: one_job_def is_open_def)
  from assms have only: "\<forall>j < length (sources s). es_open (sources s ! j) \<longrightarrow> j = i"
    using es by (auto simp: one_job_def)
  show ?thesis
  proof (cases "terminal ev")
    case False
    with assms show ?thesis
      by (cases ev) (auto simp: onmessage_def one_job_def busy_def appendLog_def)
  next
    case True
    have "\<not> busy (onmessage ev s)"
      using True es i a0 only
      by (cases ev) (auto simp: onmessage_def busy_def setRunning_def appendLog_def Let_def close_eventSource_def nth_list_update)
    moreover have "\<forall>j < length (sources (onmessage ev s)). \<not> es_open (sources (onmessage ev s) ! j)"
      using True es i a0 only
      by (cases ev) (auto simp: onmessage_def busy_def setRunning_def appendLog_def Let_def close_eventSource_def nth_list_update)
    moreover have "awaiting_start (onmessage ev s) = 0"
      using True a0 by (cases ev) (auto simp: onmessage_def setRunning_def appendLog_def Let_def)
    ultimately show ?thesis by (simp add: one_job_def)
  qed
qed

lemma one_job_onerror:
  assumes "one_job s" "is_open s i"
  shows "one_job (onerror s)"
proof -
  from assms have es: "eventSource s = Some i" and i: "i < length (sources s)" and a0: "awaiting_start s = 0"
    by (auto simp: one_job_def is_open_def)
  from assms have only: "\<forall>j < length (sources s). es_open (sources s ! j) \<longrightarrow> j = i"
    using es by (auto simp: one_job_def)
  have "\<forall>j < length (sources (onerror s)). \<not> es_open (sources (onerror s) ! j)"
    using es i only
    by (auto simp: onerror_def setRunning_def appendLog_def close_eventSource_def nth_list_update)
  moreover have "awaiting_start (onerror s) = 0"
    using a0 by (simp add: onerror_def setRunning_def appendLog_def)
  ultimately show ?thesis by (auto simp: one_job_def busy_def)
qed

lemma one_job_startDownload:
  assumes "one_job s" "\<not> download_btn_disabled s"
  shows "one_job (startDownload f s)"
proof -
  from assms have nb: "\<not> busy s" by (auto simp: one_job_def)
  then have a0: "awaiting_start s = 0"
    and closed: "\<forall>j < length (sources s). \<not> es_open (sources s ! j)"
    by (auto simp: busy_def)
  show ?thesis
  proof (cases "gatherParams f s")
    case (Inl msg)
    with assms show ?thesis by (simp add: startDownload_def one_job_def busy_def)
  next
    case (Inr ps)
    with a0 closed show ?thesis
      by (simp add: startDownload_def one_job_def busy_def setRunning_def)
  qed
qed

lemma one_job_startDownload_resumed:
  assumes "one_job s" "awaiting_start s \<noteq> 0"
  shows "one_job (startDownload_resumed r (s\<lparr>awaiting_start := awaiting_start s - 1\<rparr>))"
proof -
  from assms have a1: "awaiting_start s = 1" by (auto simp: one_job_def)
  with assms have closed: "\<forall>j < length (sources s). \<not> es_open (sources s ! j)"
    by (auto simp: one_job_def)
  from assms a1 have dis: "download_btn_disabled s" and wrap: "download_link_wrap s = []"
    by (auto simp: one_job_def busy_def)
  show ?thesis
  proof (cases r)
    case (Rejected msg)
    with a1 closed show ?thesis
      by (simp add: startDownload_resumed_def one_job_def busy_def setRunning_def appendLog_def)
  next
    case (Resolved data)
    with a1 closed dis wrap show ?thesis
      by (auto simp: startDownload_resumed_def one_job_def busy_def setRunning_def appendLog_def
          nth_append)
  qed
qed

lemma one_job_step: "one_job s \<Longrightarrow> allowed a s \<Longrightarrow> one_job (step a s)"
proof (cases a)
  case (StartDownload f)
  assume "one_job s" "allowed a s"
  with StartDownload show ?thesis by (simp add: one_job_startDownload allowed_def)
next
  case (StartReply r)
  assume "one_job s" with StartReply show ?thesis
    using one_job_startDownload_resumed [of s r] by auto
next
  case (Message i ev)
  assume "one_job s" with Message show ?thesis by (simp add: one_job_onmessage)
next
  case (StreamError i)
  assume "one_job s" with StreamError show ?thesis by (simp add: one_job_onerror)
next
  case CancelDownload
  assume "one_job s" with CancelDownload show ?thesis
    by (simp add: cancelDownload_def one_job_def busy_def)
next
  case (CancelReply r)
  assume "one_job s" with CancelReply show ?thesis
    by (cases r) (simp_all add: cancelDownload_resumed_def appendLog_def one_job_def busy_def)
next
  case (LookupUser f)
  assume "one_job s" with LookupUser show ?thesis
    by (simp add: lookupUser_def Let_def one_job_def busy_def)
next
  case (LookupReply r)
  assume "one_job s" with LookupReply show ?thesis
    by (cases r) (simp_all add: lookupUser_resumed_def one_job_def busy_def)
next
  case (StartPreview f)
  assume "one_job s" with StartPreview show ?thesis
    by (simp add: startPreview_def Let_def one_job_def busy_def)
next
  case (PreviewReply loc r)
  assume "one_job s" with PreviewReply show ?thesis
    by (cases r) (simp_all add: startPreview_resumed_def one_job_def busy_def)
next
  case (OnUserModeChange f)
  assume "one_job s" with OnUserModeChange show ?thesis
    by (simp add: onUserModeChange_def one_job_def busy_def)
qed

lemma one_job_run: "one_job s \<Longrightarrow> guarded s acts \<Longrightarrow> one_job (run acts s)"
  unfolding run_def by (induction acts arbitrary: s) (simp_all add: one_job_step)










lemma open_no_link:
  assumes "one_job s" "is_open s i"
  shows "download_link_wrap s = []"
proof -
  from assms(2) have "busy s" by (auto simp: busy_def is_open_def)
  with assms(1) show ?thesis by (simp add: one_job_def)
qed

lemma download_link_nonempty: "download_link j \<noteq> []"
  by (simp add: download_link_def)

text \<open>No handler run changes which of the two buttons is enabled, except through
  \<open>setRunning\<close>.\<close>

lemma buttons_step:
  assumes "one_enabled s"
  shows "one_enabled (step a s)"
proof (cases a)
  case (StartDownload f)
  with assms show ?thesis
    by (cases "gatherParams f s") (simp_all add: one_enabled_def startDownload_def setRunning_def)
next
  case (StartReply r)
  with assms show ?thesis
    by (cases r) (simp_all add: one_enabled_def startDownload_resumed_def setRunning_def appendLog_def)
next
  case (Message i ev)
  with assms show ?thesis
    by (cases ev) (simp_all add: one_enabled_def onmessage_def setRunning_def appendLog_def Let_def)
next
  case (StreamError i)
  with assms show ?thesis
    by (simp add: one_enabled_def onerror_def setRunning_def appendLog_def)
next
  case CancelDownload
  with assms show ?thesis by (simp add: one_enabled_def cancelDownload_def)
next
  case (CancelReply r)
  with assms show ?thesis
    by (cases r) (simp_all add: one_enabled_def cancelDownload_resumed_def appendLog_def)
next
  case (LookupUser f)
  with assms show ?thesis by (simp add: one_enabled_def lookupUser_def Let_def)
next
  case (LookupReply r)
  with assms show ?thesis by (cases r) (simp_all add: one_enabled_def lookupUser_resumed_def)
next
  case (StartPreview f)
  with assms show ?thesis by (simp add: one_enabled_def startPreview_def Let_def)
next
  case (PreviewReply loc r)
  with assms show ?thesis by (cases r) (simp_all add: one_enabled_def startPreview_resumed_def)
next
  case (OnUserModeChange f)
  with assms show ?thesis by (simp add: one_enabled_def onUserModeChange_def)
qed

lemma buttons_run: "one_enabled s \<Longrightarrow> one_enabled (run acts s)"
  unfolding run_def by (induction acts arbitrary: s) (simp_all add: buttons_step)

text \<open>The status text of a progress message ends in \<open>photos\<close>; only the message
  \<open>cancelled\<close> writes \<open>Cancelled\<close>.\<close>

lemma progress_text_not_cancelled:
  "show_nat c @ ''/'' @ show_nat t @ '' photos'' \<noteq> ''Cancelled''"
proof
  assume eq: "show_nat c @ ''/'' @ show_nat t @ '' photos'' = ''Cancelled''"
  have "last (show_nat c @ ''/'' @ show_nat t @ '' photos'') = last '' photos''"
    by (simp only: last_append append_assoc [symmetric]) simp
  then have "last ''Cancelled'' = last '' photos''" by (simp only: eq)
  then show False by simp
qed

lemma cancelled_only_by_event:
  assumes "progress_status (step a s) = ''Cancelled''"
  shows "progress_status s = ''Cancelled'' \<or> (\<exists>i. a = Message i Cancelled)"
proof (cases a)
  case (StartDownload f)
  with assms show ?thesis
    by (cases "gatherParams f s") (auto simp: startDownload_def setRunning_def split: if_splits)
next
  case (StartReply r)
  with assms show ?thesis
    by (cases r) (auto simp: startDownload_resumed_def setRunning_def appendLog_def split: if_splits)
next
  case (Message i ev)
  with assms show ?thesis
    using progress_text_not_cancelled
    by (cases ev) (auto simp: onmessage_def setRunning_def appendLog_def Let_def split: if_splits)
next
  case (StreamError i)
  with assms show ?thesis
    by (auto simp: onerror_def setRunning_def appendLog_def split: if_splits)
next
  case CancelDownload
  with assms show ?thesis by (auto simp: cancelDownload_def split: if_splits)
next
  case (CancelReply r)
  with assms show ?thesis
    by (cases r) (auto simp: cancelDownload_resumed_def appendLog_def split: if_splits)
next
  case (LookupUser f)
  with assms show ?thesis by (auto simp: lookupUser_def Let_def split: if_splits)
next
  case (LookupReply r)
  with assms show ?thesis by (cases r) (auto simp: lookupUser_resumed_def split: if_splits)
next
  case (StartPreview f)
  with assms show ?thesis by (auto simp: startPreview_def Let_def split: if_splits)
next
  case (PreviewReply loc r)
  with assms show ?thesis by (cases r) (auto simp: startPreview_resumed_def split: if_splits)
next
  case (OnUserModeChange f)
  with assms show ?thesis by (auto simp: onUserModeChange_def)
qed

subsection \<open>The claims\<close>




text \<open>
  Claim C2, as the script computes it. A \<open>progress\<close> message with fields \<open>current\<close> and
  \<open>total\<close> changes two things only: the status becomes \<open>current/total photos\<close>, and
  the bar's width becomes \<open>Math.round((current / total) * 100)\<close> percent, the quotient and
  the product each rounded to the nearest double before \<open>Math.round\<close>. For
  \<open>current \<le> total\<close>, \<open>0 < total \<le> 2^44\<close> that is the exact percentage
  \<open>100 * current / total\<close> rounded to the nearest integer, unless the exact percentage
  lies halfway between two integers; in every case with \<open>current \<le> total\<close> it is the
  exact percentage rounded down or up. It is \<open>100%\<close> for \<open>current = total > 0\<close> and
  \<open>0%\<close> for \<open>current = 0 < total\<close>. A message of a type other than the six of the
  \<open>switch\<close> changes nothing, and each of the six changes the status or the log of the
  empty page.
\<close>

theorem progress_event_display:
  "onmessage (Progress cur tot) s =
     s\<lparr>progress_bar_width := num_to_string (Math_round (js_times (js_div cur tot) 100)) @ ''%'',
       progress_status := show_nat cur @ ''/'' @ show_nat tot @ '' photos''\<rparr>
   \<and> (0 < tot \<and> cur \<le> tot \<and> tot \<le> 2 ^ 44 \<and> (200 * cur + tot) mod (2 * tot) \<noteq> 0
        \<longrightarrow> progress_bar_width (onmessage (Progress cur tot) s)
            = show_nat (nat (round (100 * of_nat cur / of_nat tot :: rat))) @ ''%'')
   \<and> (0 < tot \<and> cur \<le> tot
        \<longrightarrow> (\<exists>k. progress_bar_width (onmessage (Progress cur tot) s) = show_nat k @ ''%''
               \<and> \<lfloor>100 * of_nat cur / of_nat tot :: rat\<rfloor> \<le> int k
               \<and> int k \<le> \<lceil>100 * of_nat cur / of_nat tot :: rat\<rceil>))
   \<and> (0 < cur \<longrightarrow> progress_bar_width (onmessage (Progress cur cur) s) = ''100%'')
   \<and> (0 < tot \<longrightarrow> progress_bar_width (onmessage (Progress 0 tot) s) = ''0%'')
   \<and> onmessage (Other t) s = s
   \<and> (ev \<noteq> Malformed \<and> (\<forall>k. ev \<noteq> Other k)
        \<longrightarrow> (progress_status (onmessage ev page0), log_output (onmessage ev page0))
            \<noteq> (progress_status page0, log_output page0))"
proof -
  have w: "progress_bar_width (onmessage (Progress c n) s) = num_to_string (pct c n) @ ''%''" for c n
    by (simp add: onmessage_def)
  have a: "onmessage (Progress cur tot) s =
     s\<lparr>progress_bar_width := num_to_string (Math_round (js_times (js_div cur tot) 100)) @ ''%'',
       progress_status := show_nat cur @ ''/'' @ show_nat tot @ '' photos''\<rparr>"
    by (simp add: onmessage_def pct_def)
  have n: "progress_bar_width (onmessage (Progress cur tot) s)
            = show_nat (nat (round (100 * of_nat cur / of_nat tot :: rat))) @ ''%''"
    if "0 < tot \<and> cur \<le> tot \<and> tot \<le> 2 ^ 44 \<and> (200 * cur + tot) mod (2 * tot) \<noteq> 0"
  proof -
    from that have "pct cur tot = Num (of_int (round (100 * of_nat cur / of_nat tot :: rat)))"
      by (intro pct_nearest) simp_all
    then show ?thesis by (simp add: w num_to_string_def)
  qed
  have m: "\<exists>k. progress_bar_width (onmessage (Progress cur tot) s) = show_nat k @ ''%''
               \<and> \<lfloor>100 * of_nat cur / of_nat tot :: rat\<rfloor> \<le> int k
               \<and> int k \<le> \<lceil>100 * of_nat cur / of_nat tot :: rat\<rceil>"
    if "0 < tot \<and> cur \<le> tot"
  proof -
    from that pct_between [of tot cur] obtain k where k: "pct cur tot = Num (of_int k)"
      "\<lfloor>100 * of_nat cur / of_nat tot :: rat\<rfloor> \<le> k" "k \<le> \<lceil>100 * of_nat cur / of_nat tot :: rat\<rceil>"
      by blast
    have "(0 :: rat) \<le> 100 * of_nat cur / of_nat tot" by simp
    then have "0 \<le> \<lfloor>100 * of_nat cur / of_nat tot :: rat\<rfloor>" by (simp only: zero_le_floor)
    with k(2) have k0: "0 \<le> k" by linarith
    from k(1) have "progress_bar_width (onmessage (Progress cur tot) s) = show_nat (nat k) @ ''%''"
      by (simp add: w num_to_string_def)
    with k(2,3) k0 show ?thesis by (intro exI [of _ "nat k"]) simp
  qed
  have s100: "show_nat 100 = ''100''" by code_simp
  have s0: "show_nat 0 = ''0''" by code_simp
  have b: "progress_bar_width (onmessage (Progress cur cur) s) = ''100%''" if "0 < cur"
    using pct_full [OF that] by (simp add: w num_to_string_def s100)
  have c: "progress_bar_width (onmessage (Progress 0 tot) s) = ''0%''" if "0 < tot"
    using pct_zero [OF that] by (simp add: w num_to_string_def s0)
  have d: "onmessage (Other t) s = s" by (simp add: onmessage_def)
  have e: "(progress_status (onmessage ev page0), log_output (onmessage ev page0))
            \<noteq> (progress_status page0, log_output page0)"
    if "ev \<noteq> Malformed \<and> (\<forall>k. ev \<noteq> Other k)"
    using that
    by (cases ev)
      (simp_all add: onmessage_def page0_def appendLog_def setRunning_def Let_def
        close_eventSource_def)
  from a n m b c d e show ?thesis by blast
qed

theorem progress_event_display_witness:
  "progress_bar_width (onmessage (Progress 23 40) page0) = ''57%''
   \<and> progress_status (onmessage (Progress 23 40) page0) = ''23/40 photos''
   \<and> \<lfloor>100 * of_nat 23 / of_nat 40 :: rat\<rfloor> = 57
   \<and> \<lceil>100 * of_nat 23 / of_nat 40 :: rat\<rceil> = 58
   \<and> (\<exists>k. progress_bar_width (onmessage (Progress 23 40) page0) = show_nat k @ ''%''
          \<and> 57 \<le> int k \<and> int k \<le> 58)
   \<and> (200 * 1 + 3) mod (2 * 3) \<noteq> (0 :: nat)
   \<and> progress_bar_width (onmessage (Progress 1 3) page0) = ''33%''
   \<and> (0::nat) < 40 \<and> progress_bar_width (onmessage (Progress 40 40) page0) = ''100%''
   \<and> progress_bar_width (onmessage (Progress 0 40) page0) = ''0%''
   \<and> onmessage (Other ''ping'') page0 = page0
   \<and> Zipping \<noteq> Malformed
   \<and> (progress_status (onmessage Zipping page0), log_output (onmessage Zipping page0))
       \<noteq> (progress_status page0, log_output page0)"
proof -
  have e1: "num_to_string (Math_round (js_times (js_div 23 40) 100)) = ''57''" by code_simp
  have e2: "show_nat 23 @ ''/'' @ show_nat 40 @ '' photos'' = ''23/40 photos''" by code_simp
  have e3: "\<lfloor>100 * of_nat 23 / of_nat 40 :: rat\<rfloor> = 57" "\<lceil>100 * of_nat 23 / of_nat 40 :: rat\<rceil> = 58"
    by code_simp+
  have e4: "show_nat (nat (round (100 * of_nat 1 / of_nat 3 :: rat))) = ''33''" by code_simp
  have pos: "(0::nat) < 40" by simp
  have rng: "(0 :: nat) < 3 \<and> (1 :: nat) \<le> 3 \<and> (3 :: nat) \<le> 2 ^ 44
      \<and> (200 * 1 + 3) mod (2 * 3) \<noteq> (0 :: nat)" by simp
  have kind: "Zipping \<noteq> Malformed \<and> (\<forall>k. Zipping \<noteq> Other k)" by simp
  note t = progress_event_display [of 23 40 page0 "''ping''" Zipping]
  from t have "onmessage (Progress 23 40) page0 =
     page0\<lparr>progress_bar_width := ''57%'', progress_status := ''23/40 photos''\<rparr>"
    unfolding e1 e2 by simp
  then have a: "progress_bar_width (onmessage (Progress 23 40) page0) = ''57%''"
    and b: "progress_status (onmessage (Progress 23 40) page0) = ''23/40 photos''"
    by simp_all
  from progress_event_display [of 1 3 page0 "''ping''" Zipping] rng
  have "progress_bar_width (onmessage (Progress 1 3) page0)
      = show_nat (nat (round (100 * of_nat 1 / of_nat 3 :: rat))) @ ''%''" by blast
  then have n: "progress_bar_width (onmessage (Progress 1 3) page0) = ''33%''"
    unfolding e4 by simp
  from progress_event_display [of 40 40 page0 "''ping''" Zipping] pos
  have c: "progress_bar_width (onmessage (Progress 40 40) page0) = ''100%''" by blast
  from progress_event_display [of 0 40 page0 "''ping''" Zipping] pos
  have d: "progress_bar_width (onmessage (Progress 0 40) page0) = ''0%''" by blast
  from t have e: "onmessage (Other ''ping'') page0 = page0" by blast
  from t kind have f: "(progress_status (onmessage Zipping page0), log_output (onmessage Zipping page0))
       \<noteq> (progress_status page0, log_output page0)" by blast
  from rng have r: "(200 * 1 + 3) mod (2 * 3) \<noteq> (0 :: nat)" by blast
  have "(0 :: nat) < 40 \<and> (23 :: nat) \<le> 40" by simp
  with t have "\<exists>k. progress_bar_width (onmessage (Progress 23 40) page0) = show_nat k @ ''%''
      \<and> \<lfloor>100 * of_nat 23 / of_nat 40 :: rat\<rfloor> \<le> int k
      \<and> int k \<le> \<lceil>100 * of_nat 23 / of_nat 40 :: rat\<rceil>" by blast
  then have g: "\<exists>k. progress_bar_width (onmessage (Progress 23 40) page0) = show_nat k @ ''%''
      \<and> 57 \<le> int k \<and> int k \<le> 58" unfolding e3 .
  from a b e3 g r n pos c d e f show ?thesis by simp
qed

text \<open>
  Halfway the width is not always the exact percentage rounded: at 23 of 40 photos the
  exact percentage is 57.5, which rounds to 58, but the double product is
  57.49999999999999 and the script shows \<open>57%\<close>.
\<close>

theorem progress_rounding_counterexample:
  "progress_bar_width (onmessage (Progress 23 40) page0) = ''57%''
   \<and> show_nat (nat (round (100 * 23 / 40 :: rat))) @ ''%'' = ''58%''"
proof -
  have e1: "num_to_string (pct 23 40) = ''57''" by code_simp
  have e2: "show_nat (nat (round (100 * 23 / 40 :: rat))) = ''58''" by code_simp
  show ?thesis using e1 e2 by (simp add: onmessage_def)
qed

text \<open>
  Claim C3, as the script does it. With a current job identifier, the call of
  \<open>cancelDownload\<close> sets the status to \<open>Cancelling...\<close> and sends one POST to the cancel
  endpoint; when the reply arrives nothing changes, and when the request fails one line
  \<open>Cancel error: ...\<close> is appended to the log. In every case the stream, the global
  \<open>eventSource\<close>, both buttons, the job identifier, the progress bar and the download
  link stay as they are; and no handler run but that of a \<open>cancelled\<close> message makes the
  status \<open>Cancelled\<close>.
\<close>

theorem cancelDownload_effects:
  assumes "truthy (currentJobId s)"
  shows "cancelDownload s =
           s\<lparr>progress_status := ''Cancelling...'',
             requests := requests s @ [POST (''/api/download/cancel/'' @ the (currentJobId s)) NoBody],
             awaiting_cancel := Suc (awaiting_cancel s)\<rparr>
       \<and> cancelDownload_resumed (Resolved u) s' = s'
       \<and> cancelDownload_resumed (Rejected msg) s' =
           s'\<lparr>log_output := log_output s' @ ''Cancel error: '' @ msg @ ''\<newline>''\<rparr>
       \<and> eventSource (cancelDownload_resumed r (cancelDownload s)) = eventSource s
       \<and> sources (cancelDownload_resumed r (cancelDownload s)) = sources s
       \<and> download_btn_disabled (cancelDownload_resumed r (cancelDownload s)) = download_btn_disabled s
       \<and> cancel_btn_disabled (cancelDownload_resumed r (cancelDownload s)) = cancel_btn_disabled s
       \<and> currentJobId (cancelDownload_resumed r (cancelDownload s)) = currentJobId s
       \<and> progress_bar_width (cancelDownload_resumed r (cancelDownload s)) = progress_bar_width s
       \<and> download_link_wrap (cancelDownload_resumed r (cancelDownload s)) = download_link_wrap s
       \<and> (progress_status (step a s') = ''Cancelled''
            \<longrightarrow> progress_status s' = ''Cancelled'' \<or> (\<exists>i. a = Message i Cancelled))"
proof -
  from assms obtain j where j: "currentJobId s = Some j" by (cases "currentJobId s") (auto simp: truthy_def)
  have a: "cancelDownload s =
           s\<lparr>progress_status := ''Cancelling...'',
             requests := requests s @ [POST (''/api/download/cancel/'' @ the (currentJobId s)) NoBody],
             awaiting_cancel := Suc (awaiting_cancel s)\<rparr>"
    using assms j by (simp add: cancelDownload_def to_str_def)
  have b: "cancelDownload_resumed (Resolved u) s' = s'"
    and c: "cancelDownload_resumed (Rejected msg) s' =
           s'\<lparr>log_output := log_output s' @ ''Cancel error: '' @ msg @ ''\<newline>''\<rparr>"
    by (simp_all add: cancelDownload_resumed_def appendLog_def)
  have d: "eventSource (cancelDownload_resumed r (cancelDownload s)) = eventSource s
       \<and> sources (cancelDownload_resumed r (cancelDownload s)) = sources s
       \<and> download_btn_disabled (cancelDownload_resumed r (cancelDownload s)) = download_btn_disabled s
       \<and> cancel_btn_disabled (cancelDownload_resumed r (cancelDownload s)) = cancel_btn_disabled s
       \<and> currentJobId (cancelDownload_resumed r (cancelDownload s)) = currentJobId s
       \<and> progress_bar_width (cancelDownload_resumed r (cancelDownload s)) = progress_bar_width s
       \<and> download_link_wrap (cancelDownload_resumed r (cancelDownload s)) = download_link_wrap s"
    unfolding a by (cases r) (simp_all add: cancelDownload_resumed_def appendLog_def)
  from a b c d cancelled_only_by_event [of a s'] show ?thesis by blast
qed

theorem cancelDownload_effects_witness:
  "truthy (currentJobId subscribed)
   \<and> progress_status (cancelDownload subscribed) = ''Cancelling...''
   \<and> requests (cancelDownload subscribed) =
       requests subscribed @ [POST ''/api/download/cancel/j1'' NoBody]
   \<and> eventSource (cancelDownload_resumed (Resolved ()) (cancelDownload subscribed)) = Some 0
   \<and> is_open (cancelDownload_resumed (Resolved ()) (cancelDownload subscribed)) 0
   \<and> progress_status (step (Message 0 Cancelled) subscribed) = ''Cancelled''"
proof -
  have h: "truthy (currentJobId subscribed)" by code_simp
  have e: "the (currentJobId subscribed) = ''j1''" "eventSource subscribed = Some 0"
    "is_open subscribed 0" by code_simp+
  have f: "progress_status (step (Message 0 Cancelled) subscribed) = ''Cancelled''"
    by code_simp
  note t = cancelDownload_effects [OF h, of "()" subscribed "''x''" "Resolved ()" "Message 0 Cancelled"]
  from t have a: "cancelDownload subscribed =
           subscribed\<lparr>progress_status := ''Cancelling...'',
             requests := requests subscribed
               @ [POST (''/api/download/cancel/'' @ the (currentJobId subscribed)) NoBody],
             awaiting_cancel := Suc (awaiting_cancel subscribed)\<rparr>"
    by (rule conjunct1)
  from a have a1: "progress_status (cancelDownload subscribed) = ''Cancelling...''" by simp
  from a e(1) have a2: "requests (cancelDownload subscribed) =
       requests subscribed @ [POST ''/api/download/cancel/j1'' NoBody]" by simp
  from t have "eventSource (cancelDownload_resumed (Resolved ()) (cancelDownload subscribed))
      = eventSource subscribed" by blast
  with e(2) have c: "eventSource (cancelDownload_resumed (Resolved ()) (cancelDownload subscribed)) = Some 0"
    by simp
  from t have d: "sources (cancelDownload_resumed (Resolved ()) (cancelDownload subscribed)) = sources subscribed"
    by blast
  from d e(3) have o: "is_open (cancelDownload_resumed (Resolved ()) (cancelDownload subscribed)) 0"
    by (simp add: is_open_def)
  from h a1 a2 c o f show ?thesis by simp
qed

text \<open>The status and the POST are not the only effects: a request that fails is logged.\<close>

theorem cancel_failure_counterexample:
  "truthy (currentJobId subscribed)
   \<and> log_output subscribed = []
   \<and> log_output (cancelDownload_resumed (Rejected ''Failed to fetch'') (cancelDownload subscribed))
       = ''Cancel error: Failed to fetch\<newline>''"
  by code_simp

text \<open>
  Claim C4, for one download at a time. The handler, on a \<open>complete\<close> message, writes
  a download link whose \<open>href\<close> ends in the message's \<open>job_id\<close> into the link wrapper
  if \<open>file_ready\<close> is true, and leaves the wrapper as it is if \<open>file_ready\<close> is false.
  From the script as loaded, in every run in which \<open>startDownload\<close> is called only
  while the download button is enabled, the wrapper of an open stream is empty: then the
  wrapper holds the link if \<open>file_ready\<close> is true and nothing if it is false. In both
  cases the status is \<open>Done\<close>, the log gets the message's text (or \<open>Done.\<close>), not an
  error line, and the download button is enabled again.
\<close>

theorem complete_event_link:
  assumes "initial s0" and "guarded s0 acts" and "is_open (run acts s0) i"
  shows \<open>download_link_wrap (step (Message i (Complete m file_ready job_id)) (run acts s0))
           = (if file_ready then download_link job_id else [])
       \<and> (download_link_wrap (step (Message i (Complete m file_ready job_id)) (run acts s0)) \<noteq> [])
           = file_ready
       \<and> download_link job_id
           = ''<a class="download-link" href="/api/download/file/'' @ job_id @ ''">Download Zip</a>''
       \<and> progress_status (step (Message i (Complete m file_ready job_id)) (run acts s0)) = ''Done''
       \<and> log_output (step (Message i (Complete m file_ready job_id)) (run acts s0))
           = log_output (run acts s0) @ (if truthy m then to_str m else ''Done.'') @ ''\<newline>''
       \<and> \<not> download_btn_disabled (step (Message i (Complete m file_ready job_id)) (run acts s0))
       \<and> download_link_wrap (onmessage (Complete m file_ready job_id) s)
           = (if file_ready then download_link job_id else download_link_wrap s)\<close>
proof -
  let ?s = "run acts s0"
  have inv: "one_job ?s" using assms(1,2) by (intro one_job_run initial_one_job)
  from open_no_link [OF inv assms(3)] have w: "download_link_wrap ?s = []" .
  have st: "step (Message i (Complete m file_ready job_id)) ?s = onmessage (Complete m file_ready job_id) ?s"
    using assms(3) by simp
  have u: "download_link_wrap (onmessage (Complete m file_ready job_id) s)
      = (if file_ready then download_link job_id else download_link_wrap s)" for s
    by (simp add: onmessage_def Let_def setRunning_def appendLog_def)
  have a: "download_link_wrap (onmessage (Complete m file_ready job_id) ?s)
      = (if file_ready then download_link job_id else [])"
    using w by (simp add: u)
  have b: "progress_status (onmessage (Complete m file_ready job_id) ?s) = ''Done''"
    by (simp add: onmessage_def Let_def setRunning_def appendLog_def)
  have c: "log_output (onmessage (Complete m file_ready job_id) ?s)
      = log_output ?s @ (if truthy m then to_str m else ''Done.'') @ ''\<newline>''"
    by (simp add: onmessage_def Let_def setRunning_def appendLog_def)
  have d: "\<not> download_btn_disabled (onmessage (Complete m file_ready job_id) ?s)"
    by (simp add: onmessage_def Let_def setRunning_def appendLog_def)
  from a have e: "(download_link_wrap (onmessage (Complete m file_ready job_id) ?s) \<noteq> []) = file_ready"
    using download_link_nonempty [of job_id] by simp
  have f: \<open>download_link job_id
           = ''<a class="download-link" href="/api/download/file/'' @ job_id @ ''">Download Zip</a>''\<close>
    by (simp add: download_link_def)
  show ?thesis unfolding st using a b c d e f u [of s] by blast
qed

theorem complete_event_link_witness:
  \<open>initial page0 \<and> guarded page0 (take 3 job_run) \<and> is_open (run (take 3 job_run) page0) 0
   \<and> download_link_wrap (step (Message 0 (Complete (Some ''ok'') True ''j1'')) (run (take 3 job_run) page0))
       = ''<a class="download-link" href="/api/download/file/j1">Download Zip</a>''
   \<and> download_link_wrap (step (Message 0 (Complete None False ''j1'')) (run (take 3 job_run) page0)) = []
   \<and> progress_status (step (Message 0 (Complete None False ''j1'')) (run (take 3 job_run) page0)) = ''Done''
   \<and> log_output (step (Message 0 (Complete None False ''j1'')) (run (take 3 job_run) page0)) = ''Done.\<newline>''\<close>
proof -
  have i: "initial page0" by (simp add: initial_def page0_def)
  have g: "guarded page0 (take 3 job_run)" by code_simp
  have o: "is_open (run (take 3 job_run) page0) 0" by code_simp
  have l: "log_output (run (take 3 job_run) page0) = []" by code_simp
  note t1 = complete_event_link [OF i g o, of "Some ''ok''" True "''j1''" page0]
  note t2 = complete_event_link [OF i g o, of None False "''j1''" page0]
  from t1 have a: \<open>download_link_wrap (step (Message 0 (Complete (Some ''ok'') True ''j1'')) (run (take 3 job_run) page0))
       = ''<a class="download-link" href="/api/download/file/j1">Download Zip</a>''\<close>
    by simp
  from t2 have b: "download_link_wrap (step (Message 0 (Complete None False ''j1'')) (run (take 3 job_run) page0)) = []"
    by simp
  from t2 have c: "progress_status (step (Message 0 (Complete None False ''j1'')) (run (take 3 job_run) page0)) = ''Done''"
    by blast
  from t2 have "log_output (step (Message 0 (Complete None False ''j1'')) (run (take 3 job_run) page0))
     = log_output (run (take 3 job_run) page0) @ (if truthy None then to_str None else ''Done.'') @ ''\<newline>''"
    by blast
  then have d: "log_output (step (Message 0 (Complete None False ''j1'')) (run (take 3 job_run) page0)) = ''Done.\<newline>''"
    using l by (simp add: truthy_def)
  from i g o a b c d show ?thesis by simp
qed

text \<open>
  Without that condition the claim fails. With two downloads under way, the first
  stream stays open after its \<open>complete\<close> message has written the link; a second
  \<open>complete\<close> message on it, with \<open>file_ready\<close> false, leaves that link in the wrapper.
\<close>

theorem stale_link_counterexample:
  "initial page0
   \<and> is_open (run overlap_start page0) 0
   \<and> download_link_wrap (step (Message 0 (Complete None False ''j1'')) (run overlap_start page0))
       = download_link ''j1''
   \<and> download_link ''j1'' \<noteq> []
   \<and> progress_status (step (Message 0 (Complete None False ''j1'')) (run overlap_start page0)) = ''Done''"
proof -
  have i: "initial page0" by (simp add: initial_def page0_def)
  have o: "is_open (run overlap_start page0) 0" by code_simp
  have w: "download_link_wrap (step (Message 0 (Complete None False ''j1'')) (run overlap_start page0))
       = download_link ''j1''" by code_simp
  have p: "progress_status (step (Message 0 (Complete None False ''j1'')) (run overlap_start page0)) = ''Done''"
    by code_simp
  from i o w p download_link_nonempty [of "''j1''"] show ?thesis by simp
qed

text \<open>
  Claim C5. On the user-album tab, if no user has been resolved (\<open>userNsid\<close> is
  \<open>null\<close>), or album mode is selected and the index parsed from the album select is
  \<open>NaN\<close>, negative or not less than the number of albums, then \<open>gatherParams\<close> alerts
  and returns \<open>null\<close>, and \<open>startDownload\<close> returns with nothing but the alert done: no
  request is sent, no call is left waiting, no stream is opened.
\<close>

theorem gatherParams_rejects:
  assumes "getActiveTab f = ''user-album''"
    and "userNsid s = None \<or> (in_user_mode f = ''album'' \<and>
           (case parseInt (in_album_select f) of None \<Rightarrow> True
            | Some idx \<Rightarrow> idx < 0 \<or> int (length (userAlbums s)) \<le> idx))"
  shows "\<exists>msg. gatherParams f s = Inl msg
           \<and> startDownload f s = s\<lparr>alerts := alerts s @ [msg]\<rparr>
           \<and> requests (step (StartDownload f) s) = requests s
           \<and> awaiting_start (step (StartDownload f) s) = awaiting_start s
           \<and> sources (step (StartDownload f) s) = sources s"
proof -
  have "\<exists>msg. gatherParams f s = Inl msg"
  proof (cases "truthy (userNsid s)")
    case False
    with assms(1) show ?thesis by (simp add: gatherParams_def)
  next
    case True
    then have "userNsid s \<noteq> None" by (auto simp: truthy_def split: option.splits)
    with assms(2) have m: "in_user_mode f = ''album''"
      and bad: "case parseInt (in_album_select f) of None \<Rightarrow> True
            | Some idx \<Rightarrow> idx < 0 \<or> int (length (userAlbums s)) \<le> idx"
      by auto
    from bad have "gatherParams f s = Inl ''Select an album first.''"
      using assms(1) True m
      by (cases "parseInt (in_album_select f)") (simp_all add: gatherParams_def)
    then show ?thesis by blast
  qed
  then obtain msg where g: "gatherParams f s = Inl msg" by blast
  then have "startDownload f s = s\<lparr>alerts := alerts s @ [msg]\<rparr>"
    by (simp add: startDownload_def)
  with g show ?thesis by auto
qed

theorem gatherParams_rejects_witness:
  "getActiveTab album_form = ''user-album''
   \<and> userNsid page0 = None
   \<and> gatherParams album_form page0 = Inl ''Look up a user first.''
   \<and> requests (step (StartDownload album_form) page0) = requests page0
   \<and> in_user_mode no_album_form = ''album''
   \<and> parseInt (in_album_select no_album_form) = None
   \<and> gatherParams no_album_form looked_up = Inl ''Select an album first.''
   \<and> requests (step (StartDownload no_album_form) looked_up) = requests looked_up"
proof -
  have tab: "getActiveTab album_form = ''user-album''" "getActiveTab no_album_form = ''user-album''"
    by (simp_all add: getActiveTab_def album_form_def no_album_form_def)
  have u: "userNsid page0 = None" by (simp add: page0_def)
  have m: "in_user_mode no_album_form = ''album''" by (simp add: no_album_form_def album_form_def)
  have p: "parseInt (in_album_select no_album_form) = None" by code_simp
  have g1: "gatherParams album_form page0 = Inl ''Look up a user first.''" by code_simp
  have g2: "gatherParams no_album_form looked_up = Inl ''Select an album first.''" by code_simp
  from gatherParams_rejects [of album_form page0] tab u
  have r1: "requests (step (StartDownload album_form) page0) = requests page0" by blast
  from gatherParams_rejects [of no_album_form looked_up] tab m p
  have r2: "requests (step (StartDownload no_album_form) looked_up) = requests looked_up"
    by (simp del: step.simps) blast
  from tab u g1 r1 m p g2 r2 show ?thesis by simp
qed

text \<open>
  Claim C6. On the user-album tab with a resolved user: in album mode with a valid
  index, the parameters have \<open>tab_type\<close> \<open>album\<close>, the selected album's identifier and
  title, the user's identifier, and no \<open>count\<close>; \<open>onUserModeChange\<close> in album mode
  disables the count input. In photostream mode the parameters always have a \<open>count\<close>
  (never zero), and \<open>onUserModeChange\<close> enables the count input.
\<close>

theorem gatherParams_album:
  assumes "getActiveTab f = ''user-album''" and "truthy (userNsid s)"
  shows "(in_user_mode f = ''album'' \<and> parseInt (in_album_select f) = Some idx
            \<and> 0 \<le> idx \<and> idx < int (length (userAlbums s))
          \<longrightarrow> (\<exists>ps. gatherParams f s = Inr ps \<and> p_tab_type ps = Some ''album''
                 \<and> p_album_id ps = Some (a_id (userAlbums s ! nat idx))
                 \<and> p_album_title ps = Some (a_title (userAlbums s ! nat idx))
                 \<and> p_user_nsid ps = userNsid s \<and> p_count ps = None))
       \<and> (in_user_mode f = ''album'' \<longrightarrow> user_count_disabled (onUserModeChange f s'))
       \<and> (in_user_mode f = ''photostream''
          \<longrightarrow> (\<exists>ps c. gatherParams f s = Inr ps \<and> p_tab_type ps = Some ''user_photostream''
                 \<and> p_count ps = Some c \<and> c \<noteq> 0)
            \<and> \<not> user_count_disabled (onUserModeChange f s'))"
  using assms
  by (auto simp: gatherParams_def Let_def base_params_def onUserModeChange_def parseInt_or_def
      split: option.splits)

theorem gatherParams_album_witness:
  "getActiveTab album_form = ''user-album'' \<and> truthy (userNsid looked_up)
   \<and> in_user_mode album_form = ''album'' \<and> parseInt (in_album_select album_form) = Some 1
   \<and> (1::int) < int (length (userAlbums looked_up))
   \<and> (\<exists>ps. gatherParams album_form looked_up = Inr ps \<and> p_tab_type ps = Some ''album''
         \<and> p_album_id ps = Some ''7216'' \<and> p_album_title ps = Some ''Birds''
         \<and> p_user_nsid ps = Some ''12345@N00'' \<and> p_count ps = None)
   \<and> user_count_disabled (onUserModeChange album_form page0)
   \<and> (\<exists>ps. gatherParams (album_form\<lparr>in_user_mode := ''photostream''\<rparr>) looked_up = Inr ps
         \<and> p_count ps = Some 25)"
proof -
  have tab: "getActiveTab album_form = ''user-album''"
    "getActiveTab (album_form\<lparr>in_user_mode := ''photostream''\<rparr>) = ''user-album''"
    by (simp_all add: getActiveTab_def album_form_def)
  have u: "truthy (userNsid looked_up)" by code_simp
  have m: "in_user_mode album_form = ''album''" by (simp add: album_form_def)
  have p: "parseInt (in_album_select album_form) = Some 1" by code_simp
  have n: "(1::int) < int (length (userAlbums looked_up))" by code_simp
  have a: "a_id (userAlbums looked_up ! nat 1) = ''7216''"
    "a_title (userAlbums looked_up ! nat 1) = ''Birds''"
    "userNsid looked_up = Some ''12345@N00''" by code_simp+
  from gatherParams_album [OF tab(1) u, of 1 page0] m p n
  have g: "\<exists>ps. gatherParams album_form looked_up = Inr ps \<and> p_tab_type ps = Some ''album''
         \<and> p_album_id ps = Some ''7216'' \<and> p_album_title ps = Some ''Birds''
         \<and> p_user_nsid ps = Some ''12345@N00'' \<and> p_count ps = None"
    unfolding a by simp
  from gatherParams_album [OF tab(1) u, of 1 page0] m
  have d: "user_count_disabled (onUserModeChange album_form page0)" by blast
  have c: "parseInt_or (in_user_count (album_form\<lparr>in_user_mode := ''photostream''\<rparr>)) 500 = 25"
    by code_simp
  from gatherParams_album [OF tab(2) u, of 1 page0]
  obtain ps where "gatherParams (album_form\<lparr>in_user_mode := ''photostream''\<rparr>) looked_up = Inr ps"
    by auto
  moreover from this tab(2) u c have "p_count ps = Some 25"
    by (auto simp: gatherParams_def Let_def)
  ultimately have h: "\<exists>ps. gatherParams (album_form\<lparr>in_user_mode := ''photostream''\<rparr>) looked_up = Inr ps
         \<and> p_count ps = Some 25" by blast
  from tab(1) u m p n g d h show ?thesis by simp
qed

text \<open>
  Claim C7. When the reply to the search has no error and an empty preview, the rest of
  \<open>startPreview\<close> sets the status to \<open>No photos found.\<close>, enables the preview button
  again and changes nothing else: no error text, no alert, no exception.
\<close>

theorem empty_preview_not_error:
  assumes "\<not> truthy (sr_error data)" and "sr_preview data = []"
  shows "startPreview_resumed loc (Resolved data) s =
           s\<lparr>preview_status := ''No photos found.'', preview_btn_disabled := False\<rparr>
       \<and> (0 < awaiting_preview s \<longrightarrow>
            step (PreviewReply loc (Resolved data)) s =
              s\<lparr>awaiting_preview := awaiting_preview s - 1,
                preview_status := ''No photos found.'', preview_btn_disabled := False\<rparr>)"
  using assms by (simp add: startPreview_resumed_def)

theorem empty_preview_not_error_witness:
  "\<not> truthy (sr_error empty_reply) \<and> sr_preview empty_reply = []
   \<and> 0 < awaiting_preview searching
   \<and> preview_status searching = ''Searching...''
   \<and> preview_status (step (PreviewReply show_nat (Resolved empty_reply)) searching) = ''No photos found.''
   \<and> \<not> preview_btn_disabled (step (PreviewReply show_nat (Resolved empty_reply)) searching)
   \<and> alerts (step (PreviewReply show_nat (Resolved empty_reply)) searching) = []
   \<and> uncaught (step (PreviewReply show_nat (Resolved empty_reply)) searching) = 0"
proof -
  have h: "\<not> truthy (sr_error empty_reply)" "sr_preview empty_reply = []"
    by (simp_all add: empty_reply_def truthy_def)
  have a: "0 < awaiting_preview searching" "preview_status searching = ''Searching...''"
    "alerts searching = []" "uncaught searching = 0"
    by code_simp+
  from empty_preview_not_error [OF h, of show_nat searching] a(1)
  have "step (PreviewReply show_nat (Resolved empty_reply)) searching =
      searching\<lparr>awaiting_preview := awaiting_preview searching - 1,
                preview_status := ''No photos found.'', preview_btn_disabled := False\<rparr>"
    by blast
  with h a show ?thesis by simp
qed

text \<open>
  Claim C8. When no job has been started (\<open>currentJobId\<close> is \<open>null\<close>),
  \<open>cancelDownload\<close> returns at once: the state after it is the state before it (no
  request, no change of the page, no call left waiting).
\<close>

theorem cancel_without_job:
  assumes "currentJobId s = None"
  shows "cancelDownload s = s \<and> step CancelDownload s = s"
  using assms by (simp add: cancelDownload_def truthy_def)

theorem cancel_without_job_witness:
  "currentJobId page0 = None \<and> cancelDownload page0 = page0 \<and> step CancelDownload page0 = page0"
proof -
  have h: "currentJobId page0 = None" by (simp add: page0_def)
  from cancel_without_job [OF h] h show ?thesis by simp
qed

text \<open>
  Claim C9. After \<open>setRunning(b)\<close> the download button's \<open>disabled\<close> is \<open>b\<close> and the
  cancel button's is \<open>not b\<close>; after any further handler runs exactly one of the two
  buttons is enabled; and the message handler on a terminal message, and the error
  handler of the stream, leave the download button enabled (and the cancel button
  disabled).
\<close>

theorem setRunning_buttons:
  "download_btn_disabled (setRunning b s) = b
   \<and> cancel_btn_disabled (setRunning b s) = (\<not> b)
   \<and> one_enabled (run acts (setRunning b s))
   \<and> (terminal ev \<longrightarrow> \<not> download_btn_disabled (onmessage ev s) \<and> cancel_btn_disabled (onmessage ev s))
   \<and> \<not> download_btn_disabled (onerror s) \<and> cancel_btn_disabled (onerror s)"
proof -
  have a: "download_btn_disabled (setRunning b s) = b \<and> cancel_btn_disabled (setRunning b s) = (\<not> b)"
    by (simp add: setRunning_def)
  then have "one_enabled (setRunning b s)" by (simp add: one_enabled_def)
  then have c: "one_enabled (run acts (setRunning b s))"
    by (rule buttons_run)
  have d: "\<not> download_btn_disabled (onmessage ev s) \<and> cancel_btn_disabled (onmessage ev s)" if "terminal ev"
    using that by (cases ev) (simp_all add: onmessage_def setRunning_def appendLog_def Let_def)
  have e: "\<not> download_btn_disabled (onerror s) \<and> cancel_btn_disabled (onerror s)"
    by (simp add: onerror_def setRunning_def appendLog_def)
  from a c d e show ?thesis by blast
qed

theorem setRunning_buttons_witness:
  "download_btn_disabled (setRunning True page0)
   \<and> \<not> cancel_btn_disabled (setRunning True page0)
   \<and> one_enabled (run (take 3 job_run) (setRunning True page0))
   \<and> terminal Cancelled
   \<and> \<not> download_btn_disabled (onmessage Cancelled subscribed)
   \<and> cancel_btn_disabled (onmessage Cancelled subscribed)"
proof -
  have t: "terminal Cancelled" by simp
  from setRunning_buttons [of True page0 "take 3 job_run" Cancelled]
    setRunning_buttons [of True subscribed "[]" Cancelled] t
  show ?thesis by simp
qed

text \<open>
  Claim C10. When \<open>parseInt\<close> of the count input is \<open>NaN\<close> or \<open>0\<close>, the count of the
  parameters is 500 on the interestingness tab and in photostream mode, and 100 on the
  search tab; the input \<open>0\<close> parses to \<open>0\<close>, so a count of zero becomes the default
  without an alert; and an empty filename template becomes \<open>{title}_{id}\<close>.
\<close>

theorem gatherParams_defaults:
  "(getActiveTab f = ''interestingness''
      \<and> (parseInt (in_int_count f) = None \<or> parseInt (in_int_count f) = Some 0)
     \<longrightarrow> (\<exists>ps. gatherParams f s = Inr ps \<and> p_count ps = Some 500))
   \<and> (getActiveTab f = ''search''
      \<and> (parseInt (in_search_count f) = None \<or> parseInt (in_search_count f) = Some 0)
     \<longrightarrow> (\<exists>ps. gatherParams f s = Inr ps \<and> p_count ps = Some 100))
   \<and> (getActiveTab f = ''user-album'' \<and> truthy (userNsid s) \<and> in_user_mode f = ''photostream''
      \<and> (parseInt (in_user_count f) = None \<or> parseInt (in_user_count f) = Some 0)
     \<longrightarrow> (\<exists>ps. gatherParams f s = Inr ps \<and> p_count ps = Some 500))
   \<and> parseInt ''0'' = Some 0
   \<and> (in_filename_tmpl f = [] \<and> gatherParams f s = Inr ps'
     \<longrightarrow> p_filename_template ps' = ''{title}_{id}'')"
proof -
  have z: "parseInt ''0'' = Some 0" by code_simp
  have t: "p_filename_template ps' = ''{title}_{id}''"
    if "in_filename_tmpl f = []" "gatherParams f s = Inr ps'"
    using that
    by (auto simp: gatherParams_def Let_def base_params_def with_user_id_def
        split: if_splits option.splits)
  have "p_count (with_user_id s ps) = p_count ps" for ps
    by (simp add: with_user_id_def)
  then show ?thesis using z t
    by (auto simp: gatherParams_def Let_def parseInt_or_def)
qed

theorem gatherParams_defaults_witness:
  "getActiveTab zero_form = ''interestingness'' \<and> parseInt (in_int_count zero_form) = Some 0
   \<and> (\<exists>ps. gatherParams zero_form page0 = Inr ps \<and> p_count ps = Some 500
          \<and> p_filename_template ps = ''{title}_{id}'')
   \<and> parseInt (in_search_count zero_form) = None
   \<and> (\<exists>ps. gatherParams (zero_form\<lparr>in_active_tab := Some ''search''\<rparr>) page0 = Inr ps
          \<and> p_count ps = Some 100)
   \<and> parseInt (in_user_count zero_form) = None
   \<and> (\<exists>ps. gatherParams (zero_form\<lparr>in_active_tab := Some ''user-album''\<rparr>) looked_up = Inr ps
          \<and> p_count ps = Some 500)"
proof -
  let ?f2 = "zero_form\<lparr>in_active_tab := Some ''search''\<rparr>"
  let ?f3 = "zero_form\<lparr>in_active_tab := Some ''user-album''\<rparr>"
  have tab: "getActiveTab zero_form = ''interestingness''" "getActiveTab ?f2 = ''search''"
    "getActiveTab ?f3 = ''user-album''" by code_simp+
  have p: "parseInt (in_int_count zero_form) = Some 0" "parseInt (in_search_count zero_form) = None"
    "parseInt (in_user_count zero_form) = None" by code_simp+
  have p': "parseInt (in_search_count ?f2) = None" "parseInt (in_user_count ?f3) = None"
    using p by simp_all
  have u: "truthy (userNsid looked_up)" "in_user_mode ?f3 = ''photostream''"
    "in_filename_tmpl zero_form = []" by code_simp+
  from gatherParams_defaults [of zero_form page0] tab(1) p(1)
  obtain ps where g1: "gatherParams zero_form page0 = Inr ps" "p_count ps = Some 500" by blast
  from gatherParams_defaults [of zero_form page0 ps] u(3) g1(1)
  have "p_filename_template ps = ''{title}_{id}''" by blast
  with g1 have a: "\<exists>ps. gatherParams zero_form page0 = Inr ps \<and> p_count ps = Some 500
          \<and> p_filename_template ps = ''{title}_{id}''" by blast
  from gatherParams_defaults [of ?f2 page0] tab(2) p'(1)
  have b: "\<exists>ps. gatherParams ?f2 page0 = Inr ps \<and> p_count ps = Some 100" by blast
  from gatherParams_defaults [of ?f3 looked_up] tab(3) p'(2) u
  have c: "\<exists>ps. gatherParams ?f3 looked_up = Inr ps \<and> p_count ps = Some 500" by blast
  from tab(1) p a b c show ?thesis by simp
qed

end
